theory Spec2Isabelle
  imports Main
begin

section \<open>Text: the Python string operations the parser calls\<close>

text \<open>
  \<^verbatim>\<open>bytes_to_str\<close> decodes Latin-1, so every character of a parsed string is one
  byte of the wire and a \<^typ>\<open>string\<close> (a list of 8-bit characters) holds it exactly.
  The functions below are Python's \<^verbatim>\<open>str\<close> methods on such text.
\<close>

definition ord :: "char \<Rightarrow> nat" where
  "ord c = of_char c"

text \<open>\<^verbatim>\<open>str.lower\<close>: A-Z and the Latin-1 capitals (U+00C0-U+00DE without U+00D7) move
  up by 32; nothing else changes.\<close>

definition lower_char :: "char \<Rightarrow> char" where
  "lower_char c =
     (if (65 \<le> ord c \<and> ord c \<le> 90) \<or> (192 \<le> ord c \<and> ord c \<le> 222 \<and> ord c \<noteq> 215)
      then char_of (ord c + 32) else c)"

definition lower :: "string \<Rightarrow> string" where
  "lower s = map lower_char s"

text \<open>\<^verbatim>\<open>str.isspace\<close> on one character: the set that \<^verbatim>\<open>strip()\<close>, \<^verbatim>\<open>lstrip()\<close>,
  \<^verbatim>\<open>rstrip()\<close> and \<^verbatim>\<open>split()\<close> without arguments use.\<close>

definition isspace :: "char \<Rightarrow> bool" where
  "isspace c = ((9 \<le> ord c \<and> ord c \<le> 13) \<or> (28 \<le> ord c \<and> ord c \<le> 32)
                 \<or> ord c = 133 \<or> ord c = 160)"

definition lstrip :: "string \<Rightarrow> string" where
  "lstrip s = dropWhile isspace s"

definition rstrip :: "string \<Rightarrow> string" where
  "rstrip s = rev (dropWhile isspace (rev s))"

definition strip :: "string \<Rightarrow> string" where
  "strip s = rstrip (lstrip s)"

text \<open>\<^verbatim>\<open>str.isnumeric\<close>: non-empty, every character numeric. In Latin-1 these are the
  ten digits, the superscripts U+00B2, U+00B3, U+00B9 and the fractions U+00BC-U+00BE.\<close>

definition isnumeric_char :: "char \<Rightarrow> bool" where
  "isnumeric_char c = ((48 \<le> ord c \<and> ord c \<le> 57) \<or> ord c = 178 \<or> ord c = 179
                        \<or> ord c = 185 \<or> (188 \<le> ord c \<and> ord c \<le> 190))"

definition isnumeric :: "string \<Rightarrow> bool" where
  "isnumeric s = (s \<noteq> [] \<and> list_all isnumeric_char s)"

definition isdecimal_char :: "char \<Rightarrow> bool" where
  "isdecimal_char c = (48 \<le> ord c \<and> ord c \<le> 57)"

text \<open>
  \<^verbatim>\<open>int(s)\<close> on a string, base 10. The interpreter strips white space at both ends
  (the six ASCII blanks, U+0085 and U+00A0), reads an optional sign, and then needs a
  non-empty run of decimal digits in which single underscores may stand between two
  digits. \<open>None\<close> is \<^verbatim>\<open>ValueError\<close>. Python integers are unbounded, but the
  interpreter refuses a string with more than \<^verbatim>\<open>sys.get_int_max_str_digits()\<close> digits,
  counting leading zeros and not counting the sign, the white space and the underscores;
  4300 is the default of CPython.
\<close>

definition int_max_str_digits :: nat where
  "int_max_str_digits = 4300"

definition int_space :: "char \<Rightarrow> bool" where
  "int_space c = ((9 \<le> ord c \<and> ord c \<le> 13) \<or> ord c = 32 \<or> ord c = 133 \<or> ord c = 160)"

fun digits_value :: "int \<Rightarrow> string \<Rightarrow> int option" where
  "digits_value acc [] = Some acc"
| "digits_value acc (c # cs) =
     (if isdecimal_char c then digits_value (acc * 10 + (int (ord c) - 48)) cs
      else if c = CHR ''_'' then
        (case cs of
           [] \<Rightarrow> None
         | d # ds \<Rightarrow> if isdecimal_char d then digits_value acc cs else None)
      else None)"

definition unsigned_value :: "string \<Rightarrow> int option" where
  "unsigned_value s =
     (case s of
        [] \<Rightarrow> None
      | c # cs \<Rightarrow> if isdecimal_char c then digits_value 0 s else None)"

definition py_int :: "string \<Rightarrow> int option" where
  "py_int s =
     (let t = rev (dropWhile int_space (rev (dropWhile int_space s))) in
      if int_max_str_digits < length (filter isdecimal_char t) then None
      else
        (case t of
           [] \<Rightarrow> None
         | c # cs \<Rightarrow>
             if c = CHR ''+'' then unsigned_value cs
             else if c = CHR ''-'' then map_option uminus (unsigned_value cs)
             else unsigned_value t))"

text \<open>The number a string of decimal digits denotes, most significant digit first.\<close>

definition decimal_value :: "string \<Rightarrow> int" where
  "decimal_value s = foldl (\<lambda>a c. a * 10 + (int (ord c) - 48)) 0 s"

text \<open>
  \<^verbatim>\<open>str.upper\<close>: a-z and the Latin-1 small letters (U+00E0-U+00FE without U+00F7) move
  down by 32, and U+00DF becomes SS. The capitals of U+00B5 and U+00FF lie outside
  Latin-1 (U+039C, U+0178); a string of bytes cannot hold them and this model leaves the
  two letters as they are. No name or pattern of the parser contains any of the four.
\<close>

definition upper_char :: "char \<Rightarrow> string" where
  "upper_char c =
     (if (97 \<le> ord c \<and> ord c \<le> 122) \<or> (224 \<le> ord c \<and> ord c \<le> 254 \<and> ord c \<noteq> 247)
      then [char_of (ord c - 32)]
      else if ord c = 223 then ''SS'' else [c])"

definition upper :: "string \<Rightarrow> string" where
  "upper s = concat (map upper_char s)"

definition CRLF :: string where
  "CRLF = [CHR 0x0D, CHR 0x0A]"

text \<open>\<^verbatim>\<open>s.find(sub)\<close>: the lowest index at which \<open>sub\<close> starts, \<open>None\<close> for -1.\<close>

fun find_sub :: "string \<Rightarrow> string \<Rightarrow> nat option" where
  "find_sub sub [] = (if sub = [] then Some 0 else None)"
| "find_sub sub (c # s) =
     (if take (length sub) (c # s) = sub then Some 0 else map_option Suc (find_sub sub s))"

text \<open>\<^verbatim>\<open>data.split(b"\r\n")\<close>: the pieces between the separators, empty ones kept. The
  first argument collects the piece being read, in reverse.\<close>

fun split_crlf_acc :: "string \<Rightarrow> string \<Rightarrow> string list" where
  "split_crlf_acc cur (a # b # s) =
     (if a = CHR 0x0D \<and> b = CHR 0x0A then rev cur # split_crlf_acc [] s
      else split_crlf_acc (a # cur) (b # s))"
| "split_crlf_acc cur [a] = [rev (a # cur)]"
| "split_crlf_acc cur [] = [rev cur]"

definition split_crlf :: "string \<Rightarrow> string list" where
  "split_crlf s = split_crlf_acc [] s"

text \<open>\<^verbatim>\<open>str.split()\<close> without arguments: the maximal runs of characters that are not
  white space.\<close>

fun split_acc :: "string \<Rightarrow> string \<Rightarrow> string list" where
  "split_acc cur [] = (if cur = [] then [] else [rev cur])"
| "split_acc cur (c # s) =
     (if isspace c then (if cur = [] then split_acc [] s else rev cur # split_acc [] s)
      else split_acc (c # cur) s)"

definition split :: "string \<Rightarrow> string list" where
  "split s = split_acc [] s"

text \<open>\<^verbatim>\<open>bytes.split(None, n)\<close>: at most \<open>n\<close> splits at runs of ASCII white space; what
  is left after the last split keeps its trailing white space.\<close>

definition bytes_isspace :: "char \<Rightarrow> bool" where
  "bytes_isspace c = ((9 \<le> ord c \<and> ord c \<le> 13) \<or> ord c = 32)"

fun split_max :: "nat \<Rightarrow> string \<Rightarrow> string list" where
  "split_max 0 s =
     (let s' = dropWhile bytes_isspace s in if s' = [] then [] else [s'])"
| "split_max (Suc n) s =
     (let s' = dropWhile bytes_isspace s in
      if s' = [] then []
      else takeWhile (\<lambda>c. \<not> bytes_isspace c) s'
             # split_max n (dropWhile (\<lambda>c. \<not> bytes_isspace c) s'))"

section \<open>The patterns\<close>

text \<open>
  \<^verbatim>\<open>METH_RE = [A-Z0-9$-_.]{3,20}\<close>. Inside the brackets \<^verbatim>\<open>$-_\<close> is a range: every
  character from \<^verbatim>\<open>$\<close> (36) to \<^verbatim>\<open>_\<close> (95). \<^verbatim>\<open>METH_RE.match\<close> anchors the pattern at the
  start of the string only, and the repetition is greedy: it takes the longest run of
  class characters among the first 20 and succeeds when that run has 3 or more.
\<close>

definition METH_RE_class :: "char \<Rightarrow> bool" where
  "METH_RE_class c =
     ((65 \<le> ord c \<and> ord c \<le> 90) \<or> (48 \<le> ord c \<and> ord c \<le> 57)
      \<or> (36 \<le> ord c \<and> ord c \<le> 95) \<or> c = CHR ''.'')"

definition METH_RE_match :: "string \<Rightarrow> bool" where
  "METH_RE_match s = (3 \<le> length (takeWhile METH_RE_class (take 20 s)))"

text \<open>\<^verbatim>\<open>VERSION_RE = HTTP/(\d+)\.(\d+)\<close>, matched at the start of the string; the result
  is the two groups.\<close>

definition VERSION_RE_match :: "string \<Rightarrow> (string \<times> string) option" where
  "VERSION_RE_match s =
     (if take 5 s = ''HTTP/'' then
        (let major = takeWhile isdecimal_char (drop 5 s);
             rest = dropWhile isdecimal_char (drop 5 s) in
         if major = [] then None
         else
           (case rest of
              [] \<Rightarrow> None
            | c # rest' \<Rightarrow>
                if c = CHR ''.'' \<and> takeWhile isdecimal_char rest' \<noteq> []
                then Some (major, takeWhile isdecimal_char rest')
                else None))
      else None)"

text \<open>\<^verbatim>\<open>HEADER_RE\<close>: the characters a header name must not contain, namely the control
  characters, DEL, space, the double quote, the backslash and the delimiters
  \<^verbatim>\<open>( ) < > @ , ; : [ ] = { }\<close>. \<^verbatim>\<open>HEADER_RE.search\<close> looks for one anywhere.\<close>

definition HEADER_RE_class :: "char \<Rightarrow> bool" where
  "HEADER_RE_class c =
     (ord c \<le> 31 \<or> ord c = 127 \<or> ord c = 32 \<or> ord c = 34 \<or> ord c = 92
      \<or> c \<in> set ''()<>@,;:[]={}'')"

definition HEADER_RE_search :: "string \<Rightarrow> bool" where
  "HEADER_RE_search s = list_ex HEADER_RE_class s"

section \<open>Data model\<close>

datatype error =
    InvalidHeader string
  | InvalidHeaderName string
  | NoMoreData string
  | InvalidRequestLine string
  | InvalidRequestMethod string
  | InvalidHTTPVersion string
  | LimitRequestLine nat int
  | LimitRequestHeaders string
  | UnsupportedTransferCoding string
  | InvalidProxyLine string
  | ForbiddenProxyRequest string
  | InvalidSchemeHeaders
  | StopIteration
  | ValueError

text \<open>The three body readers of \<^verbatim>\<open>gunicorn.http.body\<close>; \<^verbatim>\<open>Body(reader)\<close> only wraps
  one. The spec calls them FixedLength(n), Chunked and ReadUntilClose.\<close>

datatype reader = ChunkedReader | LengthReader int | EOFReader

text \<open>A peer address is a tuple (host, port) for an internet socket and a plain
  string for a unix socket.\<close>

datatype peer = Tuple string nat | Path string

record config =
  is_ssl :: bool
  cfg_limit_request_fields :: int
  cfg_limit_request_field_size :: int
  cfg_limit_request_line :: int
  strip_header_spaces :: bool
  forwarded_allow_ips :: "string list"
  secure_scheme_headers :: "(string \<times> string) list"
  proxy_protocol :: bool
  proxy_allow_ips :: "string list"
  tolerate_dangerous_framing :: bool

record proxy_info =
  pi_proxy_protocol :: string
  client_addr :: string
  client_port :: int
  proxy_addr :: string
  proxy_port :: int

text \<open>The attributes of a \<^verbatim>\<open>Message\<close> (and of a \<^verbatim>\<open>Request\<close>) that the modelled
  methods read or write.\<close>

record message =
  cfg :: config
  peer_addr :: peer
  version :: "nat \<times> nat"
  headers :: "(string \<times> string) list"
  body :: "reader option"
  scheme :: string
  must_close :: bool
  limit_request_fields :: int
  limit_request_field_size :: int
  max_buffer_headers :: int
  proxy_protocol_info :: "proxy_info option"
  http_method :: "string option"
  uri :: "string option"
  path :: "string option"
  query :: "string option"
  fragment :: "string option"
  req_number :: nat

text \<open>Python compares the version tuples lexicographically.\<close>

definition version_lt :: "nat \<times> nat \<Rightarrow> nat \<times> nat \<Rightarrow> bool" where
  "version_lt a b = (fst a < fst b \<or> (fst a = fst b \<and> snd a < snd b))"

definition version_le :: "nat \<times> nat \<Rightarrow> nat \<times> nat \<Rightarrow> bool" where
  "version_le a b = (fst a < fst b \<or> (fst a = fst b \<and> snd a \<le> snd b))"

section \<open>Message.force\_close, Message.set\_body\_reader, Request.set\_body\_reader\<close>

definition force_close :: "message \<Rightarrow> message" where
  "force_close self = self\<lparr>must_close := True\<rparr>"

text \<open>
  One pass of the \<^verbatim>\<open>for (name, value) in self.headers\<close> loop. The locals are the pair
  (chunked, content\_length). A raise returns the error together with the message as it
  is at that moment, since \<^verbatim>\<open>force_close\<close> may have run before it.
\<close>

definition scan_header ::
  "string \<times> string \<Rightarrow> bool \<times> string option \<Rightarrow> message
     \<Rightarrow> (error + bool \<times> string option) \<times> message" where
  "scan_header h loc self =
     (let name = fst h; value = snd h; chunked = fst loc; content_length = snd loc in
      if name = ''CONTENT-LENGTH'' then
        (if content_length \<noteq> None then (Inl (InvalidHeader ''CONTENT-LENGTH''), self)
         else (Inr (chunked, Some value), self))
      else if name = ''TRANSFER-ENCODING'' then
        (if lower value = ''chunked'' then
           (if chunked then (Inl (InvalidHeader ''TRANSFER-ENCODING''), self)
            else (Inr (True, content_length), self))
         else if lower value = ''identity'' then
           (if chunked then (Inl (InvalidHeader ''TRANSFER-ENCODING''), self)
            else (Inr (chunked, content_length), self))
         else if lower value = [] then
           (if \<not> tolerate_dangerous_framing (cfg self)
            then (Inl (UnsupportedTransferCoding value), force_close self)
            else (Inr (chunked, content_length), force_close self))
         else (Inl (UnsupportedTransferCoding value), force_close self))
      else (Inr (chunked, content_length), self))"

fun scan_headers ::
  "(string \<times> string) list \<Rightarrow> bool \<times> string option \<Rightarrow> message
     \<Rightarrow> (error + bool \<times> string option) \<times> message" where
  "scan_headers [] loc self = (Inr loc, self)"
| "scan_headers (h # hs) loc self =
     (case scan_header h loc self of
        (Inl e, self') \<Rightarrow> (Inl e, self')
      | (Inr loc', self') \<Rightarrow> scan_headers hs loc' self')"

text \<open>The resolution after the scan, for chunked = True.\<close>

definition resolve_chunked :: "string option \<Rightarrow> message \<Rightarrow> (error + unit) \<times> message" where
  "resolve_chunked content_length self =
     (let old = version_lt (version self) (1, 1);
          self1 = (if old then force_close self else self) in
      if old \<and> \<not> tolerate_dangerous_framing (cfg self)
      then (Inl (InvalidHeader ''TRANSFER-ENCODING''), self1)
      else
        (let self2 = (if content_length \<noteq> None then force_close self1 else self1) in
         if content_length \<noteq> None \<and> \<not> tolerate_dangerous_framing (cfg self)
         then (Inl (InvalidHeader ''CONTENT-LENGTH''), self2)
         else (Inr (), self2\<lparr>body := Some ChunkedReader\<rparr>)))"

text \<open>The resolution for a Content-Length without chunking: \<^verbatim>\<open>isnumeric\<close>, then
  \<^verbatim>\<open>int\<close> (whose \<^verbatim>\<open>ValueError\<close> is caught and raised again as InvalidHeader), then the
  sign check.\<close>

definition resolve_length :: "string \<Rightarrow> message \<Rightarrow> (error + unit) \<times> message" where
  "resolve_length content_length self =
     (if isnumeric content_length then
        (case py_int content_length of
           None \<Rightarrow> (Inl (InvalidHeader ''CONTENT-LENGTH''), self)
         | Some n \<Rightarrow>
             if n < 0 then (Inl (InvalidHeader ''CONTENT-LENGTH''), self)
             else (Inr (), self\<lparr>body := Some (LengthReader n)\<rparr>))
      else (Inl (InvalidHeader ''CONTENT-LENGTH''), self))"

definition Message_set_body_reader :: "message \<Rightarrow> (error + unit) \<times> message" where
  "Message_set_body_reader self =
     (case scan_headers (headers self) (False, None) self of
        (Inl e, self') \<Rightarrow> (Inl e, self')
      | (Inr (chunked, content_length), self') \<Rightarrow>
          if chunked then resolve_chunked content_length self'
          else
            (case content_length of
               Some v \<Rightarrow> resolve_length v self'
             | None \<Rightarrow> (Inr (), self'\<lparr>body := Some EOFReader\<rparr>)))"

definition Request_set_body_reader :: "message \<Rightarrow> (error + unit) \<times> message" where
  "Request_set_body_reader self =
     (case Message_set_body_reader self of
        (Inl e, self') \<Rightarrow> (Inl e, self')
      | (Inr u, self') \<Rightarrow>
          if body self' = Some EOFReader
          then (Inr (), self'\<lparr>body := Some (LengthReader 0)\<rparr>)
          else (Inr (), self'))"

section \<open>Message.should\_close\<close>

text \<open>The loop over the headers: \<open>Some b\<close> is \<^verbatim>\<open>return b\<close>; \<open>None\<close> is leaving the
  loop, by \<^verbatim>\<open>break\<close> at the first CONNECTION header or at the end of the list.\<close>

fun connection_loop :: "(string \<times> string) list \<Rightarrow> bool option" where
  "connection_loop [] = None"
| "connection_loop ((h, v) # hs) =
     (if h = ''CONNECTION'' then
        (let v' = strip (lower v) in
         if v' = ''close'' then Some True
         else if v' = ''keep-alive'' then Some False
         else None)
      else connection_loop hs)"

definition should_close :: "message \<Rightarrow> bool" where
  "should_close self =
     (if must_close self then True
      else
        (case connection_loop (headers self) of
           Some b \<Rightarrow> b
         | None \<Rightarrow> version_le (version self) (1, 0)))"

section \<open>Message.\_\_init\_\_: the header limits\<close>

definition MAX_REQUEST_LINE :: int where
  "MAX_REQUEST_LINE = 8190"

definition MAX_HEADERS :: int where
  "MAX_HEADERS = 32768"

definition DEFAULT_MAX_HEADERFIELD_SIZE :: int where
  "DEFAULT_MAX_HEADERFIELD_SIZE = 8190"

text \<open>The part of \<^verbatim>\<open>Message.__init__\<close> that sets the header limits and the size of the
  header buffer. \<^verbatim>\<open>x or y\<close> on integers is \<open>x\<close> unless \<open>x\<close> is 0.\<close>

definition Message_init_limits :: "message \<Rightarrow> message" where
  "Message_init_limits self =
     (let fields = (if cfg_limit_request_fields (cfg self) \<le> 0
                       \<or> cfg_limit_request_fields (cfg self) > MAX_HEADERS
                    then MAX_HEADERS else cfg_limit_request_fields (cfg self));
          field_size = (if cfg_limit_request_field_size (cfg self) < 0
                        then DEFAULT_MAX_HEADERFIELD_SIZE
                        else cfg_limit_request_field_size (cfg self));
          max_header_field_size =
            (if field_size \<noteq> 0 then field_size else DEFAULT_MAX_HEADERFIELD_SIZE)
      in self\<lparr>limit_request_fields := fields, limit_request_field_size := field_size,
               max_buffer_headers := fields * (max_header_field_size + 2) + 4\<rparr>)"

section \<open>Request.get\_data and the header loop of Request.parse\<close>

text \<open>
  The byte source is a parameter: a state \<open>'u\<close> and its \<^verbatim>\<open>read()\<close>, which returns the
  next chunk (empty at the end of the stream) and the new state. \<^verbatim>\<open>get_data\<close> appends
  the chunk to the buffer; the buffer is passed and returned as its content.
\<close>

definition get_data ::
  "('u \<Rightarrow> string \<times> 'u) \<Rightarrow> 'u \<Rightarrow> string \<Rightarrow> bool \<Rightarrow> (error + string) \<times> 'u" where
  "get_data read unreader buf stop =
     (let data = fst (read unreader); unreader' = snd (read unreader) in
      if data = [] then
        (if stop then (Inl StopIteration, unreader') else (Inl (NoMoreData buf), unreader'))
      else (Inr (buf @ data), unreader'))"

lemma get_data_grows:
  "get_data read unreader buf stop = (Inr buf', unreader') \<Longrightarrow> length buf < length buf'"
  by (auto simp: get_data_def Let_def split: if_splits)

text \<open>
  The \<^verbatim>\<open>while True\<close> loop of \<^verbatim>\<open>Request.parse\<close> that collects the header block. It
  starts with the bytes left over after the request line. \<open>Inr data\<close> is leaving the
  loop by \<^verbatim>\<open>break\<close> with the buffer \<open>data\<close>.
\<close>

function header_loop ::
  "('u \<Rightarrow> string \<times> 'u) \<Rightarrow> message \<Rightarrow> 'u \<Rightarrow> string \<Rightarrow> (error + string) \<times> 'u" where
  "header_loop read self unreader data =
     (if find_sub (CRLF @ CRLF) data = None \<and> take 2 data \<noteq> CRLF then
        (case get_data read unreader data False of
           (Inl e, unreader') \<Rightarrow> (Inl e, unreader')
         | (Inr data', unreader') \<Rightarrow>
             if int (length data') > max_buffer_headers self
             then (Inl (LimitRequestHeaders ''max buffer headers''), unreader')
             else header_loop read self unreader' data')
      else (Inr data, unreader))"
  by pat_completeness auto
termination
  apply (relation "measure (\<lambda>(read, self, unreader, data).
                            nat (max_buffer_headers self) - length data)")
   apply simp
  apply (auto dest!: get_data_grows[OF sym])
  done

section \<open>Request.parse\_request\_line\<close>

text \<open>
  \<^verbatim>\<open>split_request_uri\<close> of \<^verbatim>\<open>gunicorn.util\<close> is a parameter: it returns the path, the
  query and the fragment, or \<open>None\<close> for its \<^verbatim>\<open>ValueError\<close>. The two groups of the
  version pattern are strings of digits; \<^verbatim>\<open>int\<close> refuses one that is too long, and
  nothing catches that \<^verbatim>\<open>ValueError\<close>.
\<close>

definition parse_request_line ::
  "(string \<Rightarrow> (string \<times> string \<times> string) option) \<Rightarrow> string \<Rightarrow> message
     \<Rightarrow> (error + unit) \<times> message" where
  "parse_request_line split_request_uri line_bytes self =
     (let bits = split_max 2 line_bytes in
      if length bits \<noteq> 3 then (Inl (InvalidRequestLine line_bytes), self)
      else if \<not> METH_RE_match (bits ! 0) then (Inl (InvalidRequestMethod (bits ! 0)), self)
      else
        (let self1 = self\<lparr>http_method := Some (upper (bits ! 0)), uri := Some (bits ! 1)\<rparr> in
         case split_request_uri (bits ! 1) of
           None \<Rightarrow> (Inl (InvalidRequestLine line_bytes), self1)
         | Some parts \<Rightarrow>
             (let self2 = self1\<lparr>path := Some (fst parts), query := Some (fst (snd parts)),
                                  fragment := Some (snd (snd parts))\<rparr> in
              case VERSION_RE_match (bits ! 2) of
                None \<Rightarrow> (Inl (InvalidHTTPVersion (bits ! 2)), self2)
              | Some groups \<Rightarrow>
                  (case py_int (fst groups) of
                     None \<Rightarrow> (Inl ValueError, self2)
                   | Some major \<Rightarrow>
                       (case py_int (snd groups) of
                          None \<Rightarrow> (Inl ValueError, self2)
                        | Some minor \<Rightarrow>
                            (Inr (), self2\<lparr>version := (nat major, nat minor)\<rparr>))))))"

section \<open>The PROXY protocol line\<close>

text \<open>
  The C library's \<^verbatim>\<open>inet_pton\<close> is a parameter: for an address family and a string it
  says whether the string is an address literal. Which strings it accepts depends on the
  platform. Python's \<^verbatim>\<open>socket.inet_pton\<close> has three outcomes: it raises
  \<^verbatim>\<open>ValueError\<close> (embedded null character) when the string holds a NUL, before the
  library is asked; it raises \<^verbatim>\<open>socket.error\<close> when the library refuses the string;
  it returns the packed address otherwise.
\<close>

datatype family = AF_INET | AF_INET6

datatype pton_result = Packed | SocketError | EmbeddedNull

definition socket_inet_pton ::
  "(family \<Rightarrow> string \<Rightarrow> bool) \<Rightarrow> family \<Rightarrow> string \<Rightarrow> pton_result" where
  "socket_inet_pton inet_pton af a =
     (if CHR 0x00 \<in> set a then EmbeddedNull
      else if inet_pton af a then Packed else SocketError)"

text \<open>
  The \<^verbatim>\<open>try\<close> block with the two calls, source address first: \<^verbatim>\<open>socket.error\<close> is
  caught and raised again as InvalidProxyLine, \<^verbatim>\<open>ValueError\<close> is not caught. \<open>None\<close>
  is leaving the block without an exception.
\<close>

definition check_addresses ::
  "(family \<Rightarrow> string \<Rightarrow> bool) \<Rightarrow> family \<Rightarrow> string \<Rightarrow> string \<Rightarrow> string \<Rightarrow> error option" where
  "check_addresses inet_pton af s_addr d_addr line =
     (case socket_inet_pton inet_pton af s_addr of
        EmbeddedNull \<Rightarrow> Some ValueError
      | SocketError \<Rightarrow> Some (InvalidProxyLine line)
      | Packed \<Rightarrow>
          (case socket_inet_pton inet_pton af d_addr of
             EmbeddedNull \<Rightarrow> Some ValueError
           | SocketError \<Rightarrow> Some (InvalidProxyLine line)
           | Packed \<Rightarrow> None))"

definition parse_proxy_protocol ::
  "(family \<Rightarrow> string \<Rightarrow> bool) \<Rightarrow> string \<Rightarrow> message \<Rightarrow> (error + unit) \<times> message" where
  "parse_proxy_protocol inet_pton line self =
     (let bits = split line in
      if length bits \<noteq> 6 then (Inl (InvalidProxyLine line), self)
      else
        (let proto = bits ! 1; s_addr = bits ! 2; d_addr = bits ! 3 in
         if proto \<notin> set [''TCP4'', ''TCP6'']
         then (Inl (InvalidProxyLine
                      (''protocol '' @ [CHR 0x27] @ proto @ [CHR 0x27] @ '' not supported'')),
               self)
         else
           (case (if proto = ''TCP4'' then check_addresses inet_pton AF_INET s_addr d_addr line
                  else if proto = ''TCP6''
                  then check_addresses inet_pton AF_INET6 s_addr d_addr line
                  else None) of
              Some e \<Rightarrow> (Inl e, self)
            | None \<Rightarrow>
                (case py_int (bits ! 4) of
                   None \<Rightarrow> (Inl (InvalidProxyLine (''invalid port '' @ line)), self)
                 | Some s_port \<Rightarrow>
                     (case py_int (bits ! 5) of
                        None \<Rightarrow> (Inl (InvalidProxyLine (''invalid port '' @ line)), self)
                      | Some d_port \<Rightarrow>
                          if \<not> ((0 \<le> s_port \<and> s_port \<le> 65535)
                                 \<and> (0 \<le> d_port \<and> d_port \<le> 65535))
                          then (Inl (InvalidProxyLine (''invalid port '' @ line)), self)
                          else
                            (Inr (),
                             self\<lparr>proxy_protocol_info :=
                                     Some \<lparr>pi_proxy_protocol = proto, client_addr = s_addr,
                                           client_port = s_port, proxy_addr = d_addr,
                                           proxy_port = d_port\<rparr>\<rparr>))))))"

definition proxy_protocol_access_check :: "message \<Rightarrow> error option" where
  "proxy_protocol_access_check self =
     (case peer_addr self of
        Tuple host port \<Rightarrow>
          if ''*'' \<notin> set (proxy_allow_ips (cfg self)) \<and> host \<notin> set (proxy_allow_ips (cfg self))
          then Some (ForbiddenProxyRequest host) else None
      | Path p \<Rightarrow> None)"

text \<open>\<^verbatim>\<open>Request.proxy_protocol\<close>; the result \<open>Inr b\<close> is \<^verbatim>\<open>return b\<close>.\<close>

definition Request_proxy_protocol ::
  "(family \<Rightarrow> string \<Rightarrow> bool) \<Rightarrow> string \<Rightarrow> message \<Rightarrow> (error + bool) \<times> message" where
  "Request_proxy_protocol inet_pton line self =
     (if \<not> proxy_protocol (cfg self) then (Inr False, self)
      else if req_number self \<noteq> 1 then (Inr False, self)
      else if take 5 line \<noteq> ''PROXY'' then (Inr False, self)
      else
        (case proxy_protocol_access_check self of
           Some e \<Rightarrow> (Inl e, self)
         | None \<Rightarrow>
             (case parse_proxy_protocol inet_pton line self of
                (Inl e, self') \<Rightarrow> (Inl e, self')
              | (Inr u, self') \<Rightarrow> (Inr True, self'))))"

section \<open>Message.parse\_headers\<close>

text \<open>The secure scheme headers that count for this peer: the configured ones when the
  allow-list has the wildcard, the peer is not a tuple, or its host is listed; none
  otherwise. The dictionary is an association list.\<close>

definition trusted_scheme_headers :: "message \<Rightarrow> (string \<times> string) list" where
  "trusted_scheme_headers self =
     (if ''*'' \<in> set (forwarded_allow_ips (cfg self))
         \<or> (case peer_addr self of
               Tuple host port \<Rightarrow> host \<in> set (forwarded_allow_ips (cfg self))
             | Path p \<Rightarrow> True)
      then secure_scheme_headers (cfg self) else [])"

text \<open>\<^verbatim>\<open>line.startswith((" ", "\t"))\<close>\<close>

definition starts_with_blank :: "string \<Rightarrow> bool" where
  "starts_with_blank l = (case l of [] \<Rightarrow> False | c # cs \<Rightarrow> c = CHR '' '' \<or> c = CHR 0x09)"

text \<open>\<^verbatim>\<open>name.rstrip(" \t")\<close>\<close>

definition rstrip_blanks :: "string \<Rightarrow> string" where
  "rstrip_blanks s = rev (dropWhile (\<lambda>c. c = CHR '' '' \<or> c = CHR 0x09) (rev s))"

text \<open>
  The inner loop, which takes the continuation lines of a field: the lines left, the
  length of the field so far and the pieces of the value so far go in and come out.
\<close>

fun continuation_lines ::
  "int \<Rightarrow> string list \<Rightarrow> nat \<Rightarrow> string list
     \<Rightarrow> error + (string list \<times> nat \<times> string list)" where
  "continuation_lines limit [] header_length value = Inr ([], header_length, value)"
| "continuation_lines limit (l # ls) header_length value =
     (if starts_with_blank l then
        (if int (header_length + length l) > limit \<and> limit > 0
         then Inl (LimitRequestHeaders ''limit request headers fields size'')
         else continuation_lines limit ls (header_length + length l) (value @ [l]))
      else Inr (l # ls, header_length, value))"

text \<open>
  One field: the line \<open>curr\<close> that was popped and the lines after it. The arguments
  \<open>spaces\<close> and \<open>limit\<close> are \<^verbatim>\<open>cfg.strip_header_spaces\<close> and
  \<^verbatim>\<open>self.limit_request_field_size\<close>. The result is the field and the lines left.
\<close>

definition parse_field ::
  "bool \<Rightarrow> int \<Rightarrow> string \<Rightarrow> string list
     \<Rightarrow> error + ((string \<times> string) \<times> string list)" where
  "parse_field spaces limit curr' lines =
     (case find_sub '':'' curr' of
        None \<Rightarrow> Inl (InvalidHeader (strip curr'))
      | Some i \<Rightarrow>
          (let name = (if spaces then upper (rstrip_blanks (take i curr'))
                       else upper (take i curr'));
               value = drop (Suc i) curr' in
           if HEADER_RE_search name then Inl (InvalidHeaderName name)
           else
             (case continuation_lines limit lines (length curr') [lstrip value] of
                Inl e \<Rightarrow> Inl e
              | Inr (lines', header_length, values) \<Rightarrow>
                  if int header_length > limit \<and> limit > 0
                  then Inl (LimitRequestHeaders ''limit request headers fields size'')
                  else Inr ((strip name, rstrip (concat values)), lines'))))"

text \<open>
  The scheme logic for one field. \<open>scheme_header\<close> is the local flag; a raise leaves
  the message as it is.
\<close>

definition scheme_step ::
  "(string \<times> string) list \<Rightarrow> string \<times> string \<Rightarrow> bool \<Rightarrow> message
     \<Rightarrow> (error + bool) \<times> message" where
  "scheme_step secure_headers h scheme_header self =
     (case map_of secure_headers (fst h) of
        None \<Rightarrow> (Inr scheme_header, self)
      | Some secure_value \<Rightarrow>
          (let scheme' = (if snd h = secure_value then ''https'' else ''http'') in
           if scheme_header then
             (if scheme' \<noteq> scheme self then (Inl InvalidSchemeHeaders, self)
              else (Inr scheme_header, self))
           else (Inr True, self\<lparr>scheme := scheme'\<rparr>)))"

lemma continuation_lines_length:
  "continuation_lines limit ls n v = Inr (ls', n', v') \<Longrightarrow> length ls' \<le> length ls"
  by (induction ls arbitrary: n v) (force split: if_splits)+

lemma parse_field_length:
  "parse_field spaces limit curr' ls = Inr (h, ls') \<Longrightarrow> length ls' \<le> length ls"
  by (auto simp: parse_field_def Let_def split: option.splits if_splits sum.splits
           dest: continuation_lines_length)

text \<open>The \<^verbatim>\<open>while lines\<close> loop.\<close>

function parse_headers_loop ::
  "(string \<times> string) list \<Rightarrow> string list \<Rightarrow> (string \<times> string) list \<Rightarrow> bool \<Rightarrow> message
     \<Rightarrow> (error + (string \<times> string) list) \<times> message" where
  "parse_headers_loop secure_headers [] hs scheme_header self = (Inr hs, self)"
| "parse_headers_loop secure_headers (curr' # lines) hs scheme_header self =
     (if int (length hs) \<ge> limit_request_fields self
      then (Inl (LimitRequestHeaders ''limit request headers fields''), self)
      else
        (case parse_field (strip_header_spaces (cfg self)) (limit_request_field_size self)
                curr' lines of
           Inl e \<Rightarrow> (Inl e, self)
         | Inr (h, lines') \<Rightarrow>
             (case scheme_step secure_headers h scheme_header self of
                (Inl e, self') \<Rightarrow> (Inl e, self')
              | (Inr scheme_header', self') \<Rightarrow>
                  parse_headers_loop secure_headers lines' (hs @ [h]) scheme_header' self')))"
  by pat_completeness auto
termination
  apply (relation "measure (\<lambda>(secure_headers, lines, hs, scheme_header, self). length lines)")
   apply simp
  apply (auto dest!: parse_field_length)
  done

definition parse_headers :: "message \<Rightarrow> string \<Rightarrow> (error + (string \<times> string) list) \<times> message" where
  "parse_headers self data =
     parse_headers_loop (trusted_scheme_headers self)
       (map (\<lambda>line. line @ CRLF) (split_crlf data)) [] False self"

section \<open>The scheme a trusted header gives\<close>

text \<open>
  Words for the properties of the scheme logic: a field is a scheme header when its name
  is a key of the secure scheme headers, and the scheme it gives is https when its value
  is the configured one and http otherwise.
\<close>

definition is_scheme_header :: "(string \<times> string) list \<Rightarrow> string \<times> string \<Rightarrow> bool" where
  "is_scheme_header secure_headers h = (map_of secure_headers (fst h) \<noteq> None)"

definition derived_scheme :: "(string \<times> string) list \<Rightarrow> string \<times> string \<Rightarrow> string" where
  "derived_scheme secure_headers h =
     (if map_of secure_headers (fst h) = Some (snd h) then ''https'' else ''http'')"

text \<open>
  What a loop that ends without an error has done to the message, in terms of the fields
  \<open>new\<close> it appended: nothing when none of them is a scheme header; when the flag was
  already set, nothing, and every scheme header among them gives the scheme of the
  message; otherwise the scheme is the one the first scheme header gives, and every later
  one gives the same.
\<close>

definition scheme_after ::
  "(string \<times> string) list \<Rightarrow> bool \<Rightarrow> message \<Rightarrow> (string \<times> string) list \<Rightarrow> message \<Rightarrow> bool" where
  "scheme_after sh flag self new self' =
     (case filter (is_scheme_header sh) new of
        [] \<Rightarrow> self' = self
      | h0 # rest \<Rightarrow>
          if flag then self' = self \<and> list_all (\<lambda>h. derived_scheme sh h = scheme self) (h0 # rest)
          else self' = self\<lparr>scheme := derived_scheme sh h0\<rparr>
               \<and> list_all (\<lambda>h. derived_scheme sh h = derived_scheme sh h0) rest)"

section \<open>The integer literals that \<^verbatim>\<open>int\<close> reads\<close>









section \<open>Example messages\<close>

definition example_cfg :: "bool \<Rightarrow> config" where
  "example_cfg tolerate =
     \<lparr>is_ssl = False, cfg_limit_request_fields = 100, cfg_limit_request_field_size = 8190,
      cfg_limit_request_line = 4094, strip_header_spaces = False,
      forwarded_allow_ips = [''127.0.0.1''],
      secure_scheme_headers =
        [(''X-FORWARDED-PROTOCOL'', ''ssl''), (''X-FORWARDED-PROTO'', ''https''),
         (''X-FORWARDED-SSL'', ''on'')],
      proxy_protocol = True, proxy_allow_ips = [''127.0.0.1''],
      tolerate_dangerous_framing = tolerate\<rparr>"

definition example_message :: "bool \<Rightarrow> nat \<times> nat \<Rightarrow> (string \<times> string) list \<Rightarrow> message" where
  "example_message tolerate v hs =
     \<lparr>cfg = example_cfg tolerate, peer_addr = Tuple ''127.0.0.1'' 40000, version = v,
      headers = hs, body = None, scheme = ''http'', must_close = False,
      limit_request_fields = 100, limit_request_field_size = 8190,
      max_buffer_headers = 819204, proxy_protocol_info = None, http_method = None, uri = None,
      path = None, query = None, fragment = None, req_number = 1\<rparr>"

text \<open>An example byte source: a finite list of chunks, then the end of the stream.\<close>

definition list_read :: "string list \<Rightarrow> string \<times> string list" where
  "list_read chunks = (case chunks of [] \<Rightarrow> ([], []) | c # cs \<Rightarrow> (c, cs))"

text \<open>An example message whose limits are set from the configured field count \<open>n\<close> and
  field size \<open>k\<close>.\<close>

definition example_limits :: "int \<Rightarrow> int \<Rightarrow> message" where
  "example_limits n k =
     Message_init_limits
       ((example_message False (1, 1) [])
          \<lparr>cfg := (example_cfg False)
                    \<lparr>cfg_limit_request_fields := n,
                     cfg_limit_request_field_size := k\<rparr>\<rparr>)"



text \<open>An example \<^verbatim>\<open>split_request_uri\<close>, for a target that is a path without query
  and fragment.\<close>

definition example_split_request_uri :: "string \<Rightarrow> (string \<times> string \<times> string) option" where
  "example_split_request_uri u = Some (u, [], [])"

text \<open>Example header lines, as \<^verbatim>\<open>parse_headers\<close> makes them, and example header
  blocks.\<close>

definition line_host :: string where
  "line_host = ''Host: example.com'' @ CRLF"

definition line_proto_https :: string where
  "line_proto_https = ''X-Forwarded-Proto: https'' @ CRLF"

definition line_ssl_on :: string where
  "line_ssl_on = ''X-Forwarded-SSL: on'' @ CRLF"

definition line_ssl_off :: string where
  "line_ssl_off = ''X-Forwarded-SSL: off'' @ CRLF"

definition line_protocol_http :: string where
  "line_protocol_http = ''X-Forwarded-Protocol: http'' @ CRLF"

definition agreeing_block :: string where
  "agreeing_block =
     ''Host: example.com'' @ CRLF @ ''X-Forwarded-Proto: https'' @ CRLF @ ''X-Forwarded-SSL: on''"

definition conflicting_block :: string where
  "conflicting_block = ''X-Forwarded-Proto: https'' @ CRLF @ ''X-Forwarded-SSL: off''"

definition oversized_block :: string where
  "oversized_block = ''X-Forwarded-SSL: on'' @ CRLF @ ''X-Forwarded-Protocol: http''"

section \<open>Properties of the body-framing resolver\<close>

subsection \<open>The header scan\<close>

lemma force_close_idem: "force_close (force_close s) = force_close s"
  by (simp add: force_close_def)

lemma scan_header_frame:
  "scan_header h loc self = (r, s) \<Longrightarrow> s = self \<or> s = force_close self"
  by (auto simp: scan_header_def Let_def split: if_splits)

lemma scan_headers_frame:
  "scan_headers hs loc self = (r, s) \<Longrightarrow> s = self \<or> s = force_close self"
proof (induction hs arbitrary: loc self)
  case Nil
  then show ?case by simp
next
  case (Cons h hs)
  obtain r1 s1 where h1: "scan_header h loc self = (r1, s1)" by (cases "scan_header h loc self")
  from scan_header_frame[OF h1] have s1: "s1 = self \<or> s1 = force_close self" .
  show ?case
  proof (cases r1)
    case (Inl e)
    with Cons.prems h1 s1 show ?thesis by auto
  next
    case (Inr loc')
    with Cons.prems h1 have "scan_headers hs loc' s1 = (r, s)" by simp
    from Cons.IH[OF this] s1 show ?thesis by (auto simp: force_close_idem)
  qed
qed

lemma scan_headers_append:
  "scan_headers (xs @ ys) loc self =
     (case scan_headers xs loc self of
        (Inl e, s) \<Rightarrow> (Inl e, s)
      | (Inr loc', s) \<Rightarrow> scan_headers ys loc' s)"
  by (induction xs arbitrary: loc self) (auto split: prod.splits sum.splits)

lemma scan_headers_untouched:
  "list_all (\<lambda>h. fst h \<noteq> ''CONTENT-LENGTH'' \<and> fst h \<noteq> ''TRANSFER-ENCODING'') hs
     \<Longrightarrow> scan_headers hs loc self = (Inr loc, self)"
  by (induction hs arbitrary: loc self) (auto simp: scan_header_def)

lemma scan_header_keeps_length:
  "scan_header h (ch, Some c) self = (Inr (ch', cl'), s) \<Longrightarrow> cl' = Some c"
  by (auto simp: scan_header_def Let_def split: if_splits)

lemma scan_headers_keeps_length:
  "scan_headers hs (ch, Some c) self = (Inr (ch', cl'), s) \<Longrightarrow> cl' = Some c"
proof (induction hs arbitrary: ch self)
  case Nil
  then show ?case by simp
next
  case (Cons h hs)
  obtain r1 s1 where h1: "scan_header h (ch, Some c) self = (r1, s1)"
    by (cases "scan_header h (ch, Some c) self")
  show ?case
  proof (cases r1)
    case (Inl e)
    with Cons.prems h1 show ?thesis by simp
  next
    case (Inr loc')
    obtain ch1 cl1 where loc': "loc' = (ch1, cl1)" by (cases loc')
    from h1 Inr loc' have "cl1 = Some c" by (auto dest: scan_header_keeps_length)
    with Cons.prems h1 Inr loc' have "scan_headers hs (ch1, Some c) s1 = (Inr (ch', cl'), s)"
      by simp
    from Cons.IH[OF this] show ?thesis .
  qed
qed

lemma scan_headers_length_seen:
  "scan_headers hs (ch, cl) self = (Inr (ch', cl'), s) \<Longrightarrow> (''CONTENT-LENGTH'', v) \<in> set hs
     \<Longrightarrow> cl' \<noteq> None"
proof (induction hs arbitrary: ch cl self)
  case Nil
  then show ?case by simp
next
  case (Cons h hs)
  obtain r1 s1 where h1: "scan_header h (ch, cl) self = (r1, s1)"
    by (cases "scan_header h (ch, cl) self")
  show ?case
  proof (cases r1)
    case (Inl e)
    with Cons.prems h1 show ?thesis by simp
  next
    case (Inr loc')
    obtain ch1 cl1 where loc': "loc' = (ch1, cl1)" by (cases loc')
    from Cons.prems(1) h1 Inr loc'
    have rest: "scan_headers hs (ch1, cl1) s1 = (Inr (ch', cl'), s)" by simp
    show ?thesis
    proof (cases "h = (''CONTENT-LENGTH'', v)")
      case True
      with h1 Inr loc' have "cl1 = Some v"
        by (auto simp: scan_header_def Let_def split: if_splits)
      with rest show ?thesis by (auto dest: scan_headers_keeps_length)
    next
      case False
      with Cons.prems(2) have "(''CONTENT-LENGTH'', v) \<in> set hs" by simp
      from Cons.IH[OF rest this] show ?thesis .
    qed
  qed
qed

lemma scan_headers_must_close:
  "scan_headers hs loc self = (r, s) \<Longrightarrow> must_close self \<Longrightarrow> must_close s"
  by (drule scan_headers_frame) (auto simp: force_close_def)

lemma resolve_chunked_must_close:
  "must_close s \<Longrightarrow> must_close (snd (resolve_chunked cl s))"
  by (simp add: resolve_chunked_def force_close_def Let_def)

lemma resolve_length_must_close:
  "must_close s \<Longrightarrow> must_close (snd (resolve_length v s))"
  by (simp add: resolve_length_def split: option.splits)

lemma set_body_reader_must_close:
  "scan_headers (headers self) (False, None) self = (r, s) \<Longrightarrow> must_close s
     \<Longrightarrow> must_close (snd (Message_set_body_reader self))"
  by (cases r)
     (auto simp: Message_set_body_reader_def resolve_chunked_must_close resolve_length_must_close
           split: option.splits)

subsection \<open>Lower case of the values used in the examples\<close>

lemma lower_examples:
  "lower ''chunked'' = ''chunked''"
  "lower ''Chunked'' = ''chunked''"
  "lower ''identity'' = ''identity''"
  "lower ''gzip'' = ''gzip''"
  "lower ''x'' = ''x''"
  "lower [] = []"
  by code_simp+

subsection \<open>Chunked together with Content-Length\<close>

text \<open>
  C1, as amended. Let the header scan of a message end with chunked = True, and let the
  message carry a Content-Length header. Then \<^verbatim>\<open>set_body_reader\<close> leaves
  \<open>must_close\<close> set in every case. With \<open>tolerate_dangerous_framing\<close> off it raises
  InvalidHeader, naming CONTENT-LENGTH when the version is at least (1, 1) and
  TRANSFER-ENCODING when the version is below (1, 1), where the version check comes
  first. With the toggle on it returns with the chunked reader. Nothing of the message
  but \<open>must_close\<close> and \<open>body\<close> changes.
\<close>

theorem chunked_with_content_length:
  assumes "fst (scan_headers (headers self) (False, None) self) = Inr (True, cl)"
      and "(''CONTENT-LENGTH'', v) \<in> set (headers self)"
  shows "Message_set_body_reader self =
     (if tolerate_dangerous_framing (cfg self)
      then (Inr (), self\<lparr>body := Some ChunkedReader, must_close := True\<rparr>)
      else (Inl (InvalidHeader (if version_lt (version self) (1, 1)
                                then ''TRANSFER-ENCODING'' else ''CONTENT-LENGTH'')),
            self\<lparr>must_close := True\<rparr>))"
proof -
  obtain s where sc: "scan_headers (headers self) (False, None) self = (Inr (True, cl), s)"
    using assms(1) by (cases "scan_headers (headers self) (False, None) self") auto
  from scan_headers_length_seen[OF sc assms(2)] have cl: "cl \<noteq> None" .
  from scan_headers_frame[OF sc] have "s = self \<or> s = force_close self" .
  then show ?thesis
    using sc cl
    by (auto simp: Message_set_body_reader_def resolve_chunked_def force_close_def Let_def)
qed

text \<open>The theorem at an HTTP/1.1 message with the toggle off, and at one with it on.\<close>

theorem chunked_with_content_length_witness:
  "Message_set_body_reader
     (example_message False (1, 1)
        [(''TRANSFER-ENCODING'', ''chunked''), (''CONTENT-LENGTH'', ''5'')])
   = (Inl (InvalidHeader ''CONTENT-LENGTH''),
      (example_message False (1, 1)
         [(''TRANSFER-ENCODING'', ''chunked''), (''CONTENT-LENGTH'', ''5'')])
       \<lparr>must_close := True\<rparr>)
   \<and> Message_set_body_reader
     (example_message True (1, 1)
        [(''HOST'', ''x''), (''TRANSFER-ENCODING'', ''Chunked''), (''CONTENT-LENGTH'', ''5'')])
   = (Inr (),
      (example_message True (1, 1)
         [(''HOST'', ''x''), (''TRANSFER-ENCODING'', ''Chunked''), (''CONTENT-LENGTH'', ''5'')])
       \<lparr>body := Some ChunkedReader, must_close := True\<rparr>)"
proof -
  let ?m = "example_message False (1, 1)
              [(''TRANSFER-ENCODING'', ''chunked''), (''CONTENT-LENGTH'', ''5'')]"
  let ?n = "example_message True (1, 1)
              [(''HOST'', ''x''), (''TRANSFER-ENCODING'', ''Chunked''), (''CONTENT-LENGTH'', ''5'')]"
  have m1: "fst (scan_headers (headers ?m) (False, None) ?m) = Inr (True, Some ''5'')"
    by (simp add: example_message_def scan_header_def Let_def lower_examples)
  have m2: "(''CONTENT-LENGTH'', ''5'') \<in> set (headers ?m)"
    by (simp add: example_message_def)
  have n1: "fst (scan_headers (headers ?n) (False, None) ?n) = Inr (True, Some ''5'')"
    by (simp add: example_message_def scan_header_def Let_def lower_examples)
  have n2: "(''CONTENT-LENGTH'', ''5'') \<in> set (headers ?n)"
    by (simp add: example_message_def)
  from chunked_with_content_length[OF m1 m2] chunked_with_content_length[OF n1 n2]
  show ?thesis
    by (simp add: example_message_def example_cfg_def version_lt_def)
qed

text \<open>
  As first stated, the claim has InvalidHeader name CONTENT-LENGTH for every such
  message when the toggle is off. On an HTTP/1.0 message the version check raises first,
  and the error names TRANSFER-ENCODING.
\<close>

theorem chunked_with_content_length_counterexample:
  "fst (scan_headers
          (headers (example_message False (1, 0)
                      [(''TRANSFER-ENCODING'', ''chunked''), (''CONTENT-LENGTH'', ''5'')]))
          (False, None)
          (example_message False (1, 0)
             [(''TRANSFER-ENCODING'', ''chunked''), (''CONTENT-LENGTH'', ''5'')]))
     = Inr (True, Some ''5'')
   \<and> \<not> tolerate_dangerous_framing
          (cfg (example_message False (1, 0)
                  [(''TRANSFER-ENCODING'', ''chunked''), (''CONTENT-LENGTH'', ''5'')]))
   \<and> fst (Message_set_body_reader
            (example_message False (1, 0)
               [(''TRANSFER-ENCODING'', ''chunked''), (''CONTENT-LENGTH'', ''5'')]))
     = Inl (InvalidHeader ''TRANSFER-ENCODING'')"
  by (simp add: example_message_def example_cfg_def Message_set_body_reader_def
        scan_header_def Let_def lower_examples resolve_chunked_def version_lt_def force_close_def)

subsection \<open>Two Content-Length headers\<close>

text \<open>
  C2, as amended. Let the header list hold a Content-Length field and, somewhere after
  it, another one. Then \<^verbatim>\<open>set_body_reader\<close> always fails, whether the two values are
  equal or not. When the scan of the headers before the second occurrence raised nothing,
  the error is InvalidHeader naming CONTENT-LENGTH, raised on that occurrence with the
  message as the scan left it; otherwise it is the error a Transfer-Encoding header
  before that occurrence has already raised.
\<close>

theorem duplicate_content_length:
  assumes "headers self = pre @ (''CONTENT-LENGTH'', v2) # post"
      and "(''CONTENT-LENGTH'', v1) \<in> set pre"
  shows "Message_set_body_reader self =
     (case scan_headers pre (False, None) self of
        (Inl e, s) \<Rightarrow> (Inl e, s)
      | (Inr loc, s) \<Rightarrow> (Inl (InvalidHeader ''CONTENT-LENGTH''), s))"
proof -
  obtain r s where pre: "scan_headers pre (False, None) self = (r, s)"
    by (cases "scan_headers pre (False, None) self")
  show ?thesis
  proof (cases r)
    case (Inl e)
    with pre assms(1) show ?thesis
      by (simp add: Message_set_body_reader_def scan_headers_append)
  next
    case (Inr loc)
    obtain ch cl where loc: "loc = (ch, cl)" by (cases loc)
    from pre Inr loc have "scan_headers pre (False, None) self = (Inr (ch, cl), s)" by simp
    from scan_headers_length_seen[OF this assms(2)] have "cl \<noteq> None" .
    with pre Inr loc assms(1) show ?thesis
      by (simp add: Message_set_body_reader_def scan_headers_append scan_header_def)
  qed
qed

text \<open>The theorem at two equal values and at two different ones.\<close>

theorem duplicate_content_length_witness:
  "Message_set_body_reader
     (example_message False (1, 1) [(''CONTENT-LENGTH'', ''1''), (''CONTENT-LENGTH'', ''1'')])
   = (Inl (InvalidHeader ''CONTENT-LENGTH''),
      example_message False (1, 1) [(''CONTENT-LENGTH'', ''1''), (''CONTENT-LENGTH'', ''1'')])
   \<and> Message_set_body_reader
     (example_message True (1, 1)
        [(''CONTENT-LENGTH'', ''1''), (''HOST'', ''x''), (''CONTENT-LENGTH'', ''2'')])
   = (Inl (InvalidHeader ''CONTENT-LENGTH''),
      example_message True (1, 1)
        [(''CONTENT-LENGTH'', ''1''), (''HOST'', ''x''), (''CONTENT-LENGTH'', ''2'')])"
proof -
  let ?m = "example_message False (1, 1) [(''CONTENT-LENGTH'', ''1''), (''CONTENT-LENGTH'', ''1'')]"
  let ?n = "example_message True (1, 1)
              [(''CONTENT-LENGTH'', ''1''), (''HOST'', ''x''), (''CONTENT-LENGTH'', ''2'')]"
  have m1: "headers ?m = [(''CONTENT-LENGTH'', ''1'')] @ (''CONTENT-LENGTH'', ''1'') # []"
    by (simp add: example_message_def)
  have n1: "headers ?n = [(''CONTENT-LENGTH'', ''1''), (''HOST'', ''x'')]
                           @ (''CONTENT-LENGTH'', ''2'') # []"
    by (simp add: example_message_def)
  have m2: "(''CONTENT-LENGTH'', ''1'') \<in> set [(''CONTENT-LENGTH'', ''1'')]" by simp
  have n2: "(''CONTENT-LENGTH'', ''1'') \<in> set [(''CONTENT-LENGTH'', ''1''), (''HOST'', ''x'')]"
    by simp
  from duplicate_content_length[OF m1 m2] duplicate_content_length[OF n1 n2]
  show ?thesis by (simp add: scan_header_def Let_def)
qed

text \<open>
  As first stated, the claim has every such list raise InvalidHeader naming
  CONTENT-LENGTH. A Transfer-Encoding header with an unknown coding in front of the two
  fields raises first.
\<close>

theorem duplicate_content_length_counterexample:
  "fst (Message_set_body_reader
          (example_message False (1, 1)
             [(''TRANSFER-ENCODING'', ''gzip''), (''CONTENT-LENGTH'', ''1''),
              (''CONTENT-LENGTH'', ''1'')]))
     = Inl (UnsupportedTransferCoding ''gzip'')"
  by (simp add: example_message_def Message_set_body_reader_def scan_header_def Let_def lower_examples)

subsection \<open>Unknown and empty transfer codings\<close>

text \<open>
  C3, as amended. Take a TRANSFER-ENCODING header that the scan reaches, that is, the
  scan of the headers before it raised nothing. If its value, in lower case, is neither
  chunked nor identity nor empty, \<^verbatim>\<open>set_body_reader\<close> sets \<open>must_close\<close> and raises
  UnsupportedTransferCoding with that value, whatever \<open>tolerate_dangerous_framing\<close>
  is. If the value is empty and the toggle is off, it does the same. If the value is
  empty and the toggle is on, the scan goes on past the header with \<open>must_close\<close> set,
  and \<open>must_close\<close> is still set when \<^verbatim>\<open>set_body_reader\<close> ends, however it ends.
\<close>

theorem unsupported_transfer_coding:
  assumes "headers self = pre @ (''TRANSFER-ENCODING'', v) # post"
      and "scan_headers pre (False, None) self = (Inr loc, s)"
  shows "(lower v \<noteq> ''chunked'' \<and> lower v \<noteq> ''identity'' \<and> lower v \<noteq> [] \<longrightarrow>
            Message_set_body_reader self =
              (Inl (UnsupportedTransferCoding v), self\<lparr>must_close := True\<rparr>))
       \<and> (lower v = [] \<and> \<not> tolerate_dangerous_framing (cfg self) \<longrightarrow>
            Message_set_body_reader self =
              (Inl (UnsupportedTransferCoding v), self\<lparr>must_close := True\<rparr>))
       \<and> (lower v = [] \<and> tolerate_dangerous_framing (cfg self) \<longrightarrow>
            scan_headers (pre @ [(''TRANSFER-ENCODING'', v)]) (False, None) self =
              (Inr loc, self\<lparr>must_close := True\<rparr>)
            \<and> must_close (snd (Message_set_body_reader self)))"
proof -
  from scan_headers_frame[OF assms(2)] have s: "s = self \<or> s = force_close self" .
  then have fc: "force_close s = self\<lparr>must_close := True\<rparr>" and cfg: "cfg s = cfg self"
    by (auto simp: force_close_def)
  have other: "Message_set_body_reader self =
                 (Inl (UnsupportedTransferCoding v), self\<lparr>must_close := True\<rparr>)"
    if "lower v \<noteq> ''chunked''" "lower v \<noteq> ''identity''" "lower v \<noteq> []"
    using that assms fc
    by (simp add: Message_set_body_reader_def scan_headers_append scan_header_def)
  have empty_off: "Message_set_body_reader self =
                     (Inl (UnsupportedTransferCoding v), self\<lparr>must_close := True\<rparr>)"
    if "lower v = []" "\<not> tolerate_dangerous_framing (cfg self)"
    using that assms fc cfg
    by (simp add: Message_set_body_reader_def scan_headers_append scan_header_def)
  have empty_on: "scan_headers (pre @ [(''TRANSFER-ENCODING'', v)]) (False, None) self =
              (Inr loc, self\<lparr>must_close := True\<rparr>)
            \<and> must_close (snd (Message_set_body_reader self))"
    if e: "lower v = []" and t: "tolerate_dangerous_framing (cfg self)"
  proof -
    have one: "scan_headers (pre @ [(''TRANSFER-ENCODING'', v)]) (False, None) self =
              (Inr loc, self\<lparr>must_close := True\<rparr>)"
      using e t assms(2) fc cfg by (simp add: scan_headers_append scan_header_def)
    obtain r s' where all: "scan_headers (headers self) (False, None) self = (r, s')"
      by (cases "scan_headers (headers self) (False, None) self")
    have "headers self = (pre @ [(''TRANSFER-ENCODING'', v)]) @ post" using assms(1) by simp
    then have "scan_headers post loc (self\<lparr>must_close := True\<rparr>) = (r, s')"
      using all one by (simp only: scan_headers_append) simp
    then have "must_close s'" by (rule scan_headers_must_close) simp
    with all one show ?thesis by (simp add: set_body_reader_must_close)
  qed
  from other empty_off empty_on show ?thesis by blast
qed

text \<open>The theorem at an unknown coding with the toggle on, at an empty value with the
  toggle off, and at an empty value with the toggle on.\<close>

theorem unsupported_transfer_coding_witness:
  "Message_set_body_reader
     (example_message True (1, 1) [(''HOST'', ''x''), (''TRANSFER-ENCODING'', ''gzip'')])
   = (Inl (UnsupportedTransferCoding ''gzip''),
      (example_message True (1, 1) [(''HOST'', ''x''), (''TRANSFER-ENCODING'', ''gzip'')])
        \<lparr>must_close := True\<rparr>)
   \<and> Message_set_body_reader
     (example_message False (1, 1) [(''HOST'', ''x''), (''TRANSFER-ENCODING'', [])])
   = (Inl (UnsupportedTransferCoding []),
      (example_message False (1, 1) [(''HOST'', ''x''), (''TRANSFER-ENCODING'', [])])
        \<lparr>must_close := True\<rparr>)
   \<and> must_close (snd (Message_set_body_reader
        (example_message True (1, 1) [(''HOST'', ''x''), (''TRANSFER-ENCODING'', [])])))"
proof -
  let ?a = "example_message True (1, 1) [(''HOST'', ''x''), (''TRANSFER-ENCODING'', ''gzip'')]"
  let ?b = "example_message False (1, 1) [(''HOST'', ''x''), (''TRANSFER-ENCODING'', [])]"
  let ?c = "example_message True (1, 1) [(''HOST'', ''x''), (''TRANSFER-ENCODING'', [])]"
  have a1: "headers ?a = [(''HOST'', ''x'')] @ (''TRANSFER-ENCODING'', ''gzip'') # []"
    by (simp add: example_message_def)
  have a2: "scan_headers [(''HOST'', ''x'')] (False, None) ?a = (Inr (False, None), ?a)"
    by (simp add: scan_header_def Let_def)
  have a3: "lower ''gzip'' \<noteq> ''chunked'' \<and> lower ''gzip'' \<noteq> ''identity'' \<and> lower ''gzip'' \<noteq> []"
    by (simp add: lower_examples)
  have b1: "headers ?b = [(''HOST'', ''x'')] @ (''TRANSFER-ENCODING'', []) # []"
    by (simp add: example_message_def)
  have b2: "scan_headers [(''HOST'', ''x'')] (False, None) ?b = (Inr (False, None), ?b)"
    by (simp add: scan_header_def Let_def)
  have b3: "lower [] = [] \<and> \<not> tolerate_dangerous_framing (cfg ?b)"
    by (simp add: lower_examples example_message_def example_cfg_def)
  have c1: "headers ?c = [(''HOST'', ''x'')] @ (''TRANSFER-ENCODING'', []) # []"
    by (simp add: example_message_def)
  have c2: "scan_headers [(''HOST'', ''x'')] (False, None) ?c = (Inr (False, None), ?c)"
    by (simp add: scan_header_def Let_def)
  have c3: "lower [] = [] \<and> tolerate_dangerous_framing (cfg ?c)"
    by (simp add: lower_examples example_message_def example_cfg_def)
  from unsupported_transfer_coding[OF a1 a2] a3
       unsupported_transfer_coding[OF b1 b2] b3
       unsupported_transfer_coding[OF c1 c2] c3
  show ?thesis by blast
qed

text \<open>
  As first stated, the claim is about every TRANSFER-ENCODING header with such a value.
  When two Content-Length headers stand before it, the scan raises at the second of
  them; the header with the unknown coding is never reached and \<open>must_close\<close> stays
  unset.
\<close>

theorem unsupported_transfer_coding_counterexample:
  "Message_set_body_reader
     (example_message False (1, 1)
        [(''CONTENT-LENGTH'', ''1''), (''CONTENT-LENGTH'', ''1''),
         (''TRANSFER-ENCODING'', ''gzip'')])
   = (Inl (InvalidHeader ''CONTENT-LENGTH''),
      example_message False (1, 1)
        [(''CONTENT-LENGTH'', ''1''), (''CONTENT-LENGTH'', ''1''),
         (''TRANSFER-ENCODING'', ''gzip'')])
   \<and> \<not> must_close (example_message False (1, 1)
        [(''CONTENT-LENGTH'', ''1''), (''CONTENT-LENGTH'', ''1''),
         (''TRANSFER-ENCODING'', ''gzip'')])"
  by (simp add: example_message_def Message_set_body_reader_def scan_header_def Let_def)

subsection \<open>A request without a framing header\<close>

text \<open>
  C4. For every request whose headers contain neither a CONTENT-LENGTH nor a
  TRANSFER-ENCODING field, \<^verbatim>\<open>Request.set_body_reader\<close> returns without an error, the
  body reader is the length reader of exactly 0 bytes, it is not the read-until-close
  reader, and nothing else of the message changes.
\<close>

theorem request_without_framing:
  assumes "list_all (\<lambda>h. fst h \<noteq> ''CONTENT-LENGTH'' \<and> fst h \<noteq> ''TRANSFER-ENCODING'')
             (headers self)"
  shows "Request_set_body_reader self = (Inr (), self\<lparr>body := Some (LengthReader 0)\<rparr>)
       \<and> body (snd (Request_set_body_reader self)) \<noteq> Some EOFReader"
  using scan_headers_untouched[OF assms]
  by (simp add: Request_set_body_reader_def Message_set_body_reader_def)

theorem request_without_framing_witness:
  "Request_set_body_reader
     (example_message False (1, 1) [(''HOST'', ''x''), (''CONNECTION'', ''close'')])
   = (Inr (),
      (example_message False (1, 1) [(''HOST'', ''x''), (''CONNECTION'', ''close'')])
        \<lparr>body := Some (LengthReader 0)\<rparr>)
   \<and> body (snd (Request_set_body_reader
        (example_message False (1, 1) [(''HOST'', ''x''), (''CONNECTION'', ''close'')])))
     \<noteq> Some EOFReader"
proof -
  have "list_all (\<lambda>h. fst h \<noteq> ''CONTENT-LENGTH'' \<and> fst h \<noteq> ''TRANSFER-ENCODING'')
          (headers (example_message False (1, 1) [(''HOST'', ''x''), (''CONNECTION'', ''close'')]))"
    by (simp add: example_message_def)
  from request_without_framing[OF this] show ?thesis .
qed

subsection \<open>A single Content-Length\<close>

lemma digits_value_decimal:
  "list_all isdecimal_char s \<Longrightarrow>
   digits_value acc s = Some (foldl (\<lambda>a c. a * 10 + (int (ord c) - 48)) acc s)"
  by (induction s arbitrary: acc) auto

lemma digits_value_chars:
  "digits_value acc s = Some n \<Longrightarrow> list_all (\<lambda>c. isdecimal_char c \<or> c = CHR ''_'') s"
  by (induction acc s rule: digits_value.induct) (auto split: if_splits list.splits)

lemma ord_literals:
  "ord (CHR ''+'') = 43" "ord (CHR ''-'') = 45" "ord (CHR ''_'') = 95"
  by (simp_all add: ord_def)

lemma isnumeric_char_plain:
  "isnumeric_char c \<Longrightarrow>
     \<not> int_space c \<and> c \<noteq> CHR ''+'' \<and> c \<noteq> CHR ''-'' \<and> c \<noteq> CHR ''_''"
  using ord_literals by (auto simp: isnumeric_char_def int_space_def)

lemma isdecimal_isnumeric: "isdecimal_char c \<Longrightarrow> isnumeric_char c"
  by (simp add: isdecimal_char_def isnumeric_char_def)

lemma int_strip_id:
  assumes "s \<noteq> []" "list_all (\<lambda>c. \<not> int_space c) s"
  shows "rev (dropWhile int_space (rev (dropWhile int_space s))) = s"
proof -
  from assms have a: "dropWhile int_space s = s"
    by (cases s) auto
  from assms have "\<not> int_space (last s)"
    by (simp add: list_all_iff)
  with assms(1) have "dropWhile int_space (rev s) = rev s"
    by (cases "rev s") (auto simp: last_rev hd_rev)
  with a show ?thesis by simp
qed

lemma decimal_value_nonneg:
  "list_all isdecimal_char s \<Longrightarrow> 0 \<le> acc
     \<Longrightarrow> 0 \<le> foldl (\<lambda>a c. a * 10 + (int (ord c) - 48)) acc s"
  by (induction s arbitrary: acc) (auto simp: isdecimal_char_def)

text \<open>On a string that passed \<^verbatim>\<open>isnumeric\<close>, \<^verbatim>\<open>int\<close> succeeds exactly when every
  character is one of the ten digits and there are no more of them than the interpreter
  allows.\<close>

lemma filter_all: "list_all P s \<Longrightarrow> filter P s = s"
  by (induction s) auto

lemma py_int_numeric:
  assumes "isnumeric s"
  shows "py_int s =
     (if list_all isdecimal_char s \<and> length s \<le> int_max_str_digits
      then Some (decimal_value s) else None)"
proof -
  from assms obtain c cs where s: "s = c # cs" by (cases s) (auto simp: isnumeric_def)
  from assms have plain:
    "list_all (\<lambda>c. \<not> int_space c \<and> c \<noteq> CHR ''+'' \<and> c \<noteq> CHR ''-'' \<and> c \<noteq> CHR ''_'') s"
    by (auto simp: isnumeric_def list_all_iff dest: isnumeric_char_plain)
  then have "list_all (\<lambda>c. \<not> int_space c) s" by (auto simp: list_all_iff)
  with s have strip: "rev (dropWhile int_space (rev (dropWhile int_space s))) = s"
    by (intro int_strip_id) auto
  from plain s have c: "c \<noteq> CHR ''+''" "c \<noteq> CHR ''-''" by auto
  have py: "py_int s =
      (if int_max_str_digits < length (filter isdecimal_char s) then None
       else unsigned_value s)"
    using c s strip by (simp add: py_int_def Let_def s)
  show ?thesis
  proof (cases "list_all isdecimal_char s")
    case True
    from True s have "isdecimal_char c" by simp
    then have "unsigned_value s = digits_value 0 s" by (simp add: unsigned_value_def s)
    with True py show ?thesis
      by (simp add: digits_value_decimal[OF True] decimal_value_def filter_all[OF True])
  next
    case False
    have "unsigned_value s = None"
    proof (rule ccontr)
      assume "unsigned_value s \<noteq> None"
      then obtain n where "digits_value 0 s = Some n"
        by (auto simp: unsigned_value_def s split: if_splits)
      from digits_value_chars[OF this] plain have "list_all isdecimal_char s"
        by (auto simp: list_all_iff)
      with False show False by simp
    qed
    with py False show ?thesis by simp
  qed
qed

lemma resolve_length_eq:
  "resolve_length v s =
     (if v \<noteq> [] \<and> list_all isdecimal_char v \<and> length v \<le> int_max_str_digits
      then (Inr (), s\<lparr>body := Some (LengthReader (decimal_value v))\<rparr>)
      else (Inl (InvalidHeader ''CONTENT-LENGTH''), s))"
proof (cases "isnumeric v")
  case True
  then show ?thesis
    using decimal_value_nonneg[of v 0]
    by (auto simp: resolve_length_def py_int_numeric decimal_value_def isnumeric_def)
next
  case False
  then have "\<not> (v \<noteq> [] \<and> list_all isdecimal_char v)"
    by (auto simp: isnumeric_def list_all_iff dest: isdecimal_isnumeric)
  with False show ?thesis by (auto simp: resolve_length_def)
qed

lemma scan_headers_plain:
  assumes "tolerate_dangerous_framing (cfg self) = t"
      and "list_all (\<lambda>h. fst h \<noteq> ''CONTENT-LENGTH'') hs"
      and "list_all (\<lambda>h. fst h = ''TRANSFER-ENCODING'' \<longrightarrow>
              lower (snd h) = ''identity'' \<or> (lower (snd h) = [] \<and> t)) hs"
  shows "fst (scan_headers hs (False, cl) self) = Inr (False, cl)"
  using assms
proof (induction hs arbitrary: self)
  case Nil
  then show ?case by simp
next
  case (Cons h hs)
  obtain r1 s1 where h1: "scan_header h (False, cl) self = (r1, s1)"
    by (cases "scan_header h (False, cl) self")
  from scan_header_frame[OF h1] Cons.prems(1) have t: "tolerate_dangerous_framing (cfg s1) = t"
    by (auto simp: force_close_def)
  from h1 Cons.prems have r1: "r1 = Inr (False, cl)"
    by (auto simp: scan_header_def Let_def split: if_splits)
  from Cons.prems have "fst (scan_headers hs (False, cl) s1) = Inr (False, cl)"
    by (intro Cons.IH[OF t]) auto
  with h1 r1 show ?case by simp
qed

lemma scan_headers_single_length:
  assumes "tolerate_dangerous_framing (cfg self) = t"
      and "map snd (filter (\<lambda>h. fst h = ''CONTENT-LENGTH'') hs) = [v]"
      and "list_all (\<lambda>h. fst h = ''TRANSFER-ENCODING'' \<longrightarrow>
              lower (snd h) = ''identity'' \<or> (lower (snd h) = [] \<and> t)) hs"
  shows "fst (scan_headers hs (False, None) self) = Inr (False, Some v)"
  using assms
proof (induction hs arbitrary: self)
  case Nil
  then show ?case by simp
next
  case (Cons h hs)
  obtain r1 s1 where h1: "scan_header h (False, None) self = (r1, s1)"
    by (cases "scan_header h (False, None) self")
  from scan_header_frame[OF h1] Cons.prems(1) have t: "tolerate_dangerous_framing (cfg s1) = t"
    by (auto simp: force_close_def)
  from Cons.prems(3) have te: "list_all (\<lambda>h. fst h = ''TRANSFER-ENCODING'' \<longrightarrow>
              lower (snd h) = ''identity'' \<or> (lower (snd h) = [] \<and> t)) hs" by simp
  show ?case
  proof (cases "fst h = ''CONTENT-LENGTH''")
    case True
    with Cons.prems(2)
    have v: "snd h = v" and none: "filter (\<lambda>h. fst h = ''CONTENT-LENGTH'') hs = []"
      by auto
    from none have "list_all (\<lambda>h. fst h \<noteq> ''CONTENT-LENGTH'') hs"
      by (simp add: filter_empty_conv list_all_iff)
    from scan_headers_plain[OF t this te]
    have "fst (scan_headers hs (False, Some v) s1) = Inr (False, Some v)" .
    moreover from h1 True v have "r1 = Inr (False, Some v)"
      by (auto simp: scan_header_def Let_def)
    ultimately show ?thesis using h1 by simp
  next
    case False
    with Cons.prems(2) have "map snd (filter (\<lambda>h. fst h = ''CONTENT-LENGTH'') hs) = [v]"
      by simp
    from Cons.IH[OF t this te]
    have "fst (scan_headers hs (False, None) s1) = Inr (False, Some v)" .
    moreover from h1 False Cons.prems(1,3) have "r1 = Inr (False, None)"
      by (auto simp: scan_header_def Let_def split: if_splits)
    ultimately show ?thesis using h1 by simp
  qed
qed

text \<open>
  C5, as amended. Take a message with exactly one CONTENT-LENGTH header, of value
  \<open>v\<close>, whose TRANSFER-ENCODING headers, if any, raise nothing in the scan and set no
  chunking: each has the value identity in some letter case, or is empty while
  \<open>tolerate_dangerous_framing\<close> is on. If \<open>v\<close> is a non-empty string of the digits 0 to 9,
  at most \<open>int_max_str_digits\<close> (4300) characters long, \<^verbatim>\<open>set_body_reader\<close> (of Message
  and of Request) returns and the body reader is the length reader of the number \<open>v\<close>
  denotes in base 10. For every other \<open>v\<close>, the empty string and a string of more than
  4300 digits included, it raises InvalidHeader naming CONTENT-LENGTH.
\<close>

theorem single_content_length:
  assumes "map snd (filter (\<lambda>h. fst h = ''CONTENT-LENGTH'') (headers self)) = [v]"
      and "list_all (\<lambda>h. fst h = ''TRANSFER-ENCODING'' \<longrightarrow>
              lower (snd h) = ''identity''
              \<or> (lower (snd h) = [] \<and> tolerate_dangerous_framing (cfg self))) (headers self)"
  shows "(v \<noteq> [] \<and> list_all isdecimal_char v \<and> length v \<le> int_max_str_digits \<longrightarrow>
            fst (Message_set_body_reader self) = Inr ()
          \<and> body (snd (Message_set_body_reader self)) = Some (LengthReader (decimal_value v))
          \<and> fst (Request_set_body_reader self) = Inr ()
          \<and> body (snd (Request_set_body_reader self)) = Some (LengthReader (decimal_value v)))
       \<and> (\<not> (v \<noteq> [] \<and> list_all isdecimal_char v \<and> length v \<le> int_max_str_digits) \<longrightarrow>
            fst (Message_set_body_reader self) = Inl (InvalidHeader ''CONTENT-LENGTH'')
          \<and> fst (Request_set_body_reader self) = Inl (InvalidHeader ''CONTENT-LENGTH''))"
proof -
  have "fst (scan_headers (headers self) (False, None) self) = Inr (False, Some v)"
    by (rule scan_headers_single_length[OF refl assms])
  then obtain s where "scan_headers (headers self) (False, None) self = (Inr (False, Some v), s)"
    by (cases "scan_headers (headers self) (False, None) self") auto
  then have "Message_set_body_reader self = resolve_length v s"
    by (simp add: Message_set_body_reader_def)
  then show ?thesis
    by (auto simp: Request_set_body_reader_def resolve_length_eq)
qed

text \<open>The theorem at \<^verbatim>\<open>Content-Length: 10\<close>, which gives the length reader of 10
  bytes, at \<^verbatim>\<open>Content-Length: 1x\<close>, which is refused, and at a Content-Length of 4301
  zeros, which is refused as well.\<close>

theorem single_content_length_witness:
  "body (snd (Request_set_body_reader
       (example_message False (1, 1) [(''HOST'', ''x''), (''CONTENT-LENGTH'', ''10'')])))
     = Some (LengthReader 10)
   \<and> fst (Request_set_body_reader
       (example_message False (1, 1) [(''HOST'', ''x''), (''CONTENT-LENGTH'', ''10'')]))
     = Inr ()
   \<and> fst (Request_set_body_reader
       (example_message False (1, 1) [(''CONTENT-LENGTH'', ''1x''), (''TRANSFER-ENCODING'', ''identity'')]))
     = Inl (InvalidHeader ''CONTENT-LENGTH'')
   \<and> fst (Request_set_body_reader
       (example_message False (1, 1) [(''CONTENT-LENGTH'', replicate 4301 (CHR ''0''))]))
     = Inl (InvalidHeader ''CONTENT-LENGTH'')"
proof -
  let ?c = "example_message False (1, 1) [(''CONTENT-LENGTH'', replicate 4301 (CHR ''0''))]"
  have c1: "map snd (filter (\<lambda>h. fst h = ''CONTENT-LENGTH'') (headers ?c))
              = [replicate 4301 (CHR ''0'')]"
    by (simp add: example_message_def)
  have c2: "list_all (\<lambda>h. fst h = ''TRANSFER-ENCODING'' \<longrightarrow>
              lower (snd h) = ''identity''
              \<or> (lower (snd h) = [] \<and> tolerate_dangerous_framing (cfg ?c))) (headers ?c)"
    by (simp add: example_message_def)
  have c3: "\<not> length (replicate 4301 (CHR ''0'')) \<le> int_max_str_digits"
    by (simp add: int_max_str_digits_def)
  let ?a = "example_message False (1, 1) [(''HOST'', ''x''), (''CONTENT-LENGTH'', ''10'')]"
  let ?b = "example_message False (1, 1)
              [(''CONTENT-LENGTH'', ''1x''), (''TRANSFER-ENCODING'', ''identity'')]"
  have a1: "map snd (filter (\<lambda>h. fst h = ''CONTENT-LENGTH'') (headers ?a)) = [''10'']"
    by (simp add: example_message_def)
  have a2: "list_all (\<lambda>h. fst h = ''TRANSFER-ENCODING'' \<longrightarrow>
              lower (snd h) = ''identity''
              \<or> (lower (snd h) = [] \<and> tolerate_dangerous_framing (cfg ?a))) (headers ?a)"
    by (simp add: example_message_def)
  have a3: "''10'' \<noteq> [] \<and> list_all isdecimal_char ''10''
              \<and> length ''10'' \<le> int_max_str_digits" by code_simp
  have a4: "decimal_value ''10'' = 10" by code_simp
  have b1: "map snd (filter (\<lambda>h. fst h = ''CONTENT-LENGTH'') (headers ?b)) = [''1x'']"
    by (simp add: example_message_def)
  have b2: "list_all (\<lambda>h. fst h = ''TRANSFER-ENCODING'' \<longrightarrow>
              lower (snd h) = ''identity''
              \<or> (lower (snd h) = [] \<and> tolerate_dangerous_framing (cfg ?b))) (headers ?b)"
    by (simp add: example_message_def lower_examples)
  have b3: "\<not> list_all isdecimal_char ''1x''" by code_simp
  from single_content_length[OF a1 a2] a3 a4 single_content_length[OF b1 b2] b3
       single_content_length[OF c1 c2] c3
  show ?thesis by simp
qed

text \<open>
  As first stated, the claim covers every message with one Content-Length and no chunked
  Transfer-Encoding, and every value made of decimal digits. A Transfer-Encoding header
  with another coding makes the scan raise UnsupportedTransferCoding, although the
  Content-Length is a plain number. A Content-Length of 4301 zeros is made of decimal
  digits only, and it raises InvalidHeader.
\<close>

lemma long_zeros_decimal: "list_all isdecimal_char (replicate 4301 (CHR ''0''))"
  by (simp add: list_all_iff isdecimal_char_def ord_def)

lemma long_zeros_refused:
  "fst (Message_set_body_reader
          (example_message False (1, 1) [(''CONTENT-LENGTH'', replicate 4301 (CHR ''0''))]))
     = Inl (InvalidHeader ''CONTENT-LENGTH'')"
  by (simp add: example_message_def Message_set_body_reader_def scan_header_def Let_def
        resolve_length_eq int_max_str_digits_def)

theorem single_content_length_counterexample:
  "fst (Message_set_body_reader
          (example_message False (1, 1)
             [(''CONTENT-LENGTH'', ''10''), (''TRANSFER-ENCODING'', ''gzip'')]))
     = Inl (UnsupportedTransferCoding ''gzip'')
   \<and> fst (Request_set_body_reader
          (example_message False (1, 1)
             [(''CONTENT-LENGTH'', ''10''), (''TRANSFER-ENCODING'', ''gzip'')]))
     = Inl (UnsupportedTransferCoding ''gzip'')
   \<and> list_all isdecimal_char (replicate 4301 (CHR ''0''))
   \<and> fst (Message_set_body_reader
          (example_message False (1, 1) [(''CONTENT-LENGTH'', replicate 4301 (CHR ''0''))]))
     = Inl (InvalidHeader ''CONTENT-LENGTH'')"
proof -
  have "fst (Message_set_body_reader
          (example_message False (1, 1)
             [(''CONTENT-LENGTH'', ''10''), (''TRANSFER-ENCODING'', ''gzip'')]))
     = Inl (UnsupportedTransferCoding ''gzip'')
   \<and> fst (Request_set_body_reader
          (example_message False (1, 1)
             [(''CONTENT-LENGTH'', ''10''), (''TRANSFER-ENCODING'', ''gzip'')]))
     = Inl (UnsupportedTransferCoding ''gzip'')"
    by (simp add: example_message_def Request_set_body_reader_def Message_set_body_reader_def
          scan_header_def Let_def lower_examples)
  with long_zeros_decimal long_zeros_refused show ?thesis by blast
qed

section \<open>Properties of should\_close\<close>

lemma strip_lower_examples:
  "strip (lower ''close'') = ''close''"
  "strip (lower ''keep-alive'') = ''keep-alive''"
  "strip (lower '' Close '') = ''close''"
  by code_simp+

lemma connection_loop_first:
  "list_all (\<lambda>h. fst h \<noteq> ''CONNECTION'') pre \<Longrightarrow>
   connection_loop (pre @ (''CONNECTION'', v) # post) =
     (if strip (lower v) = ''close'' then Some True
      else if strip (lower v) = ''keep-alive'' then Some False else None)"
  by (induction pre) (auto simp: Let_def)

lemma connection_loop_none:
  "list_all (\<lambda>h. fst h \<noteq> ''CONNECTION'') hs \<Longrightarrow> connection_loop hs = None"
  by (induction hs) auto

text \<open>
  C7, as amended. \<^verbatim>\<open>should_close\<close> returns true whenever the first CONNECTION header
  of the list has the value close (in any letter case, white space around it trimmed),
  whatever the HTTP version and whatever headers follow; and it returns false for an
  HTTP/1.1 message with no CONNECTION header and \<open>must_close\<close> unset.
\<close>

theorem should_close_first_connection:
  "(headers self = pre @ (''CONNECTION'', v) # post
      \<and> list_all (\<lambda>h. fst h \<noteq> ''CONNECTION'') pre \<and> strip (lower v) = ''close''
      \<longrightarrow> should_close self)
   \<and> (version self = (1, 1) \<and> list_all (\<lambda>h. fst h \<noteq> ''CONNECTION'') (headers self)
        \<and> \<not> must_close self
      \<longrightarrow> \<not> should_close self)"
  by (auto simp: should_close_def connection_loop_first connection_loop_none version_le_def)

text \<open>The theorem at an HTTP/1.1 message whose first CONNECTION header says close, and
  at an HTTP/1.1 message without one.\<close>

theorem should_close_first_connection_witness:
  "should_close (example_message False (1, 1)
                   [(''HOST'', ''x''), (''CONNECTION'', '' Close ''), (''CONNECTION'', ''keep-alive'')])
   \<and> \<not> should_close (example_message False (1, 1) [(''HOST'', ''x'')])"
proof -
  let ?a = "example_message False (1, 1)
              [(''HOST'', ''x''), (''CONNECTION'', '' Close ''), (''CONNECTION'', ''keep-alive'')]"
  let ?b = "example_message False (1, 1) [(''HOST'', ''x'')]"
  have a: "headers ?a = [(''HOST'', ''x'')] @ (''CONNECTION'', '' Close '')
                          # [(''CONNECTION'', ''keep-alive'')]
           \<and> list_all (\<lambda>h. fst h \<noteq> ''CONNECTION'') [(''HOST'', ''x'')]
           \<and> strip (lower '' Close '') = ''close''"
    by (simp add: example_message_def strip_lower_examples)
  have b: "version ?b = (1, 1) \<and> list_all (\<lambda>h. fst h \<noteq> ''CONNECTION'') (headers ?b)
           \<and> \<not> must_close ?b"
    by (simp add: example_message_def)
  from should_close_first_connection[of ?a "[(''HOST'', ''x'')]" "'' Close ''"
         "[(''CONNECTION'', ''keep-alive'')]"] a
       should_close_first_connection[of ?b] b
  show ?thesis by blast
qed

text \<open>
  As first stated, the claim lets a CONNECTION header saying close count wherever it
  stands in the list. The loop stops at the first CONNECTION header: when that one says
  keep-alive, a later one saying close is never read, and an HTTP/1.1 connection is
  kept open.
\<close>

theorem should_close_first_connection_counterexample:
  "\<not> should_close (example_message False (1, 1)
                     [(''CONNECTION'', ''keep-alive''), (''CONNECTION'', ''close'')])"
  by (simp add: should_close_def example_message_def strip_lower_examples)

section \<open>Properties of the header buffer\<close>

lemma max_buffer_headers_eq:
  "max_buffer_headers (Message_init_limits self) =
     (if 0 < cfg_limit_request_fields (cfg self) \<and> cfg_limit_request_fields (cfg self) \<le> 32768
      then cfg_limit_request_fields (cfg self) else 32768)
     * ((if 0 < cfg_limit_request_field_size (cfg self)
         then cfg_limit_request_field_size (cfg self) else 8190) + 2) + 4"
  by (simp add: Message_init_limits_def Let_def MAX_HEADERS_def DEFAULT_MAX_HEADERFIELD_SIZE_def)

lemma header_loop_break:
  "header_loop read self u data = (Inr data', u') \<Longrightarrow>
     (\<exists>t. data' = data @ t)
     \<and> (data' = data \<or> int (length data') \<le> max_buffer_headers self)
     \<and> (find_sub (CRLF @ CRLF) data' \<noteq> None \<or> take 2 data' = CRLF)"
proof (induction read self u data rule: header_loop.induct)
  case (1 read self unreader data)
  show ?case
  proof (cases "find_sub (CRLF @ CRLF) data = None \<and> take 2 data \<noteq> CRLF")
    case False
    with "1.prems" have "data' = data"
      by (subst (asm) header_loop.simps) (simp del: header_loop.simps find_sub.simps)
    with False show ?thesis by auto
  next
    case True
    obtain r u1 where g: "get_data read unreader data False = (r, u1)"
      by (cases "get_data read unreader data False")
    show ?thesis
    proof (cases r)
      case (Inl e)
      with True g "1.prems" show ?thesis
        by (subst (asm) header_loop.simps) (simp del: header_loop.simps find_sub.simps)
    next
      case (Inr d1)
      with g have grow: "\<exists>t. d1 = data @ t"
        by (auto simp: get_data_def Let_def split: if_splits)
      show ?thesis
      proof (cases "int (length d1) > max_buffer_headers self")
        case big: True
        with True g Inr "1.prems" show ?thesis
          by (subst (asm) header_loop.simps) (simp del: header_loop.simps find_sub.simps)
      next
        case small: False
        with True g Inr "1.prems" have rec: "header_loop read self u1 d1 = (Inr data', u')"
          by (subst (asm) header_loop.simps) (simp del: header_loop.simps find_sub.simps)
        have "(\<exists>t. data' = d1 @ t)
               \<and> (data' = d1 \<or> int (length data') \<le> max_buffer_headers self)
               \<and> (find_sub (CRLF @ CRLF) data' \<noteq> None \<or> take 2 data' = CRLF)"
          by (intro "1.IH"[OF True g[symmetric] Inr small rec])
        with grow small show ?thesis by auto
      qed
    qed
  qed
qed

lemma header_loop_raise:
  "header_loop read self u data = (Inl e, u') \<Longrightarrow>
     e = LimitRequestHeaders ''max buffer headers''
     \<or> (\<exists>b v. e = NoMoreData b \<and> fst (read v) = [])"
proof (induction read self u data rule: header_loop.induct)
  case (1 read self unreader data)
  show ?case
  proof (cases "find_sub (CRLF @ CRLF) data = None \<and> take 2 data \<noteq> CRLF")
    case False
    with "1.prems" show ?thesis
      by (subst (asm) header_loop.simps) (simp del: header_loop.simps find_sub.simps)
  next
    case True
    obtain r u1 where g: "get_data read unreader data False = (r, u1)"
      by (cases "get_data read unreader data False")
    show ?thesis
    proof (cases r)
      case (Inl e1)
      with True g "1.prems" have "e = e1"
        by (subst (asm) header_loop.simps) (simp del: header_loop.simps find_sub.simps)
      with g Inl show ?thesis
        by (auto simp: get_data_def Let_def split: if_splits)
    next
      case (Inr d1)
      show ?thesis
      proof (cases "int (length d1) > max_buffer_headers self")
        case big: True
        with True g Inr "1.prems" show ?thesis
          by (subst (asm) header_loop.simps) (simp del: header_loop.simps find_sub.simps)
      next
        case small: False
        with True g Inr "1.prems" have rec: "header_loop read self u1 d1 = (Inl e, u')"
          by (subst (asm) header_loop.simps) (simp del: header_loop.simps find_sub.simps)
        show ?thesis
          by (intro "1.IH"[OF True g[symmetric] Inr small rec])
      qed
    qed
  qed
qed

lemma header_loop_pull_too_big:
  assumes "find_sub (CRLF @ CRLF) data = None" "take 2 data \<noteq> CRLF" "fst (read u) \<noteq> []"
      and "max_buffer_headers self < int (length (data @ fst (read u)))"
  shows "header_loop read self u data
           = (Inl (LimitRequestHeaders ''max buffer headers''), snd (read u))"
  using assms
  by (subst header_loop.simps) (simp add: get_data_def Let_def del: header_loop.simps find_sub.simps)

text \<open>
  C10, as amended. The bound \<open>max_buffer_headers\<close> is computed once, in
  \<^verbatim>\<open>__init__\<close>, as fields * (F + 2) + 4, where fields is the configured field count
  when that lies in 1..32768 and 32768 otherwise, and F is the configured field size
  when positive and 8190 otherwise; the loop only reads it. In the header loop of
  \<^verbatim>\<open>Request.parse\<close>:
  \<^item> a pull that leaves the buffer longer than the bound raises
    LimitRequestHeaders("max buffer headers"), whether or not the chunk brought the
    terminator;
  \<^item> the buffer only grows, and when the loop ends without an error the buffer either is
    the residue it started with (no pull was made; the residue is not checked against
    the bound) or is within the bound, and it holds the terminator or starts with CRLF;
  \<^item> the loop ends for every byte source, and the only errors are that one and
    NoMoreData, the latter only when a read returned no bytes. So a peer that keeps
    sending without the terminator gets LimitRequestHeaders.
\<close>

theorem header_buffer_bound:
  "max_buffer_headers (Message_init_limits m) =
     (if 0 < cfg_limit_request_fields (cfg m) \<and> cfg_limit_request_fields (cfg m) \<le> 32768
      then cfg_limit_request_fields (cfg m) else 32768)
     * ((if 0 < cfg_limit_request_field_size (cfg m)
         then cfg_limit_request_field_size (cfg m) else 8190) + 2) + 4
   \<and> (find_sub (CRLF @ CRLF) data = None \<and> take 2 data \<noteq> CRLF \<and> fst (read u) \<noteq> []
        \<and> max_buffer_headers self < int (length (data @ fst (read u)))
      \<longrightarrow> header_loop read self u data
            = (Inl (LimitRequestHeaders ''max buffer headers''), snd (read u)))
   \<and> (\<forall>data' u'. header_loop read self u data = (Inr data', u') \<longrightarrow>
         (\<exists>t. data' = data @ t)
         \<and> (data' = data \<or> int (length data') \<le> max_buffer_headers self)
         \<and> (find_sub (CRLF @ CRLF) data' \<noteq> None \<or> take 2 data' = CRLF))
   \<and> (\<forall>e u'. header_loop read self u data = (Inl e, u') \<longrightarrow>
         e = LimitRequestHeaders ''max buffer headers''
         \<or> (\<exists>b v. e = NoMoreData b \<and> fst (read v) = []))"
  using max_buffer_headers_eq[of m] header_loop_pull_too_big[of data read u self]
        header_loop_break[of read self u data] header_loop_raise[of read self u data]
  by blast

lemma example_limits_bound:
  "max_buffer_headers (example_limits 1 10) = 16"
  "max_buffer_headers (example_limits 1 1) = 7"
  by (simp_all add: example_limits_def max_buffer_headers_eq example_message_def example_cfg_def)

text \<open>The theorem with the bound 16 (one field of size 10): a pull of 16 bytes onto a
  buffer of 4 raises; a pull that brings the terminator within the bound ends the loop;
  the end of the stream raises NoMoreData.\<close>

theorem header_buffer_bound_witness:
  "header_loop list_read (example_limits 1 10) [''0123456789abcdef''] ''A: b''
     = (Inl (LimitRequestHeaders ''max buffer headers''), [])
   \<and> header_loop list_read (example_limits 1 10) [CRLF @ CRLF] ''A: b''
     = (Inr (''A: b'' @ CRLF @ CRLF), [])
   \<and> int (length (''A: b'' @ CRLF @ CRLF)) \<le> max_buffer_headers (example_limits 1 10)
   \<and> fst (header_loop list_read (example_limits 1 10) [] ''A: b'') = Inl (NoMoreData ''A: b'')"
proof -
  let ?m = "example_limits 1 10"
  have pre: "find_sub (CRLF @ CRLF) ''A: b'' = None \<and> take 2 ''A: b'' \<noteq> CRLF
             \<and> fst (list_read [''0123456789abcdef'']) \<noteq> []
             \<and> max_buffer_headers ?m
                 < int (length (''A: b'' @ fst (list_read [''0123456789abcdef''])))"
    by (simp add: CRLF_def list_read_def example_limits_bound)
  have a: "header_loop list_read ?m [''0123456789abcdef''] ''A: b''
             = (Inl (LimitRequestHeaders ''max buffer headers''), [])"
    using header_buffer_bound[of _ "''A: b''" list_read "[''0123456789abcdef'']" ?m] pre
    by (simp add: list_read_def)
  have b: "header_loop list_read ?m [CRLF @ CRLF] ''A: b'' = (Inr (''A: b'' @ CRLF @ CRLF), [])"
    apply (subst header_loop.simps)
    apply (simp add: CRLF_def get_data_def list_read_def example_limits_bound
             del: header_loop.simps)
    apply (subst header_loop.simps)
    apply (simp add: CRLF_def del: header_loop.simps)
    done
  have c: "int (length (''A: b'' @ CRLF @ CRLF)) \<le> max_buffer_headers ?m"
    using header_buffer_bound[of _ "''A: b''" list_read "[CRLF @ CRLF]" ?m] b
    by (simp add: CRLF_def)
  have d: "fst (header_loop list_read ?m [] ''A: b'') = Inl (NoMoreData ''A: b'')"
    apply (subst header_loop.simps)
    apply (simp add: CRLF_def get_data_def list_read_def del: header_loop.simps)
    done
  from a b c d show ?thesis by simp
qed

text \<open>
  As first stated, the claim has the buffered bytes never exceed the bound in the loop.
  The bytes left over after the request line enter the loop unchecked: with the bound 7
  (one field of size 1) a residue of 21 bytes that already holds the terminator leaves
  the loop at once, without an error.
\<close>

theorem header_buffer_bound_counterexample:
  "max_buffer_headers (example_limits 1 1) = 7
   \<and> header_loop list_read (example_limits 1 1) [] (''Host: example.com'' @ CRLF @ CRLF)
       = (Inr (''Host: example.com'' @ CRLF @ CRLF), [])
   \<and> length (''Host: example.com'' @ CRLF @ CRLF) = 21"
  apply (subst header_loop.simps)
  apply (simp add: CRLF_def example_limits_bound del: header_loop.simps)
  done

section \<open>Properties of the method pattern\<close>

text \<open>What \<^verbatim>\<open>METH_RE.match\<close> decides: the token has at least three characters and its
  first three are in the class. Nothing after the third character is looked at for the
  decision, and no length above 20 is refused.\<close>

lemma METH_RE_match_iff:
  "METH_RE_match s \<longleftrightarrow> 3 \<le> length s \<and> list_all METH_RE_class (take 3 s)"
proof
  assume m: "METH_RE_match s"
  let ?p = "takeWhile METH_RE_class (take 20 s)"
  from m have l: "3 \<le> length ?p" by (simp add: METH_RE_match_def)
  have "length ?p \<le> length (take 20 s)" by (rule length_takeWhile_le)
  with l have len: "3 \<le> length s" by simp
  have "take 3 (?p @ dropWhile METH_RE_class (take 20 s)) = take 3 ?p"
    using l by (subst take_append) simp
  then have "take 3 (take 20 s) = take 3 ?p" by (simp only: takeWhile_dropWhile_id)
  then have pre: "take 3 s = take 3 ?p" by simp
  have "list_all METH_RE_class (take 3 ?p)"
    by (auto simp: list_all_iff dest!: in_set_takeD set_takeWhileD)
  with pre have "list_all METH_RE_class (take 3 s)" by simp
  with len show "3 \<le> length s \<and> list_all METH_RE_class (take 3 s)" by simp
next
  assume a: "3 \<le> length s \<and> list_all METH_RE_class (take 3 s)"
  have "take 3 (take 20 s) @ drop 3 (take 20 s) = take 20 s" by (rule append_take_drop_id)
  then obtain r where r: "take 20 s = take 3 s @ r" by (simp add: min_def) metis
  from a have "takeWhile METH_RE_class (take 3 s @ r) = take 3 s @ takeWhile METH_RE_class r"
    by (intro takeWhile_append2) (simp add: list_all_iff)
  with a r show "METH_RE_match s" by (simp add: METH_RE_match_def)
qed

lemma method_examples:
  "METH_RE_match ''GETa''"
  "\<not> METH_RE_match ''GE''"
  "\<not> METH_RE_match ''get''"
  "METH_RE_match ''G:T''"
  "split_max 2 ''GETa / HTTP/1.1'' = [''GETa'', ''/'', ''HTTP/1.1'']"
  "upper ''GETa'' = ''GETA''"
  "VERSION_RE_match ''HTTP/1.1'' = Some (''1'', ''1'')"
  "py_int ''1'' = Some 1"
  by code_simp+

text \<open>
  C6. The claim: a method token is accepted if and only if it has 3 to 20 characters,
  all of them uppercase letters, digits or one of \<^verbatim>\<open>$ - _ .\<close>, and a token with a
  lowercase letter raises InvalidRequestMethod. The code does not do this: on the
  request line \<^verbatim>\<open>GETa / HTTP/1.1\<close> the pattern matches the first three characters of
  the token, no error is raised, and the method is stored as GETA.
\<close>

theorem method_lowercase_accepted:
  "METH_RE_match ''GETa''
   \<and> parse_request_line example_split_request_uri ''GETa / HTTP/1.1'' self
     = (Inr (), self\<lparr>http_method := Some ''GETA'', uri := Some ''/'', path := Some ''/'',
                      query := Some [], fragment := Some [], version := (1, 1)\<rparr>)"
  by (simp add: parse_request_line_def method_examples example_split_request_uri_def Let_def)

section \<open>Properties of the PROXY line parser\<close>


















section \<open>Properties of the scheme logic in parse\_headers\<close>

lemma scheme_step_eq:
  "scheme_step sh h flag self =
     (if \<not> is_scheme_header sh h then (Inr flag, self)
      else if \<not> flag then (Inr True, self\<lparr>scheme := derived_scheme sh h\<rparr>)
      else if derived_scheme sh h \<noteq> scheme self then (Inl InvalidSchemeHeaders, self)
      else (Inr True, self))"
  by (auto simp: scheme_step_def is_scheme_header_def derived_scheme_def Let_def
           split: option.splits)

lemma loop_step:
  assumes "int (length hs) < limit_request_fields self"
      and "parse_field (strip_header_spaces (cfg self)) (limit_request_field_size self)
             curr' lines = Inr (h, lines')"
  shows "parse_headers_loop sh (curr' # lines) hs flag self =
     (if \<not> is_scheme_header sh h then parse_headers_loop sh lines' (hs @ [h]) flag self
      else if \<not> flag
        then parse_headers_loop sh lines' (hs @ [h]) True (self\<lparr>scheme := derived_scheme sh h\<rparr>)
      else if derived_scheme sh h \<noteq> scheme self then (Inl InvalidSchemeHeaders, self)
      else parse_headers_loop sh lines' (hs @ [h]) True self)"
  using assms by (simp add: scheme_step_eq)

lemma loop_set_once:
  "parse_headers_loop sh lines hs flag self = (r, self') \<Longrightarrow> flag \<Longrightarrow> self' = self"
proof (induction sh lines hs flag self rule: parse_headers_loop.induct)
  case (1 sh hs flag self)
  then show ?case by simp
next
  case (2 sh curr' lines hs flag self)
  show ?case
  proof (cases "int (length hs) \<ge> limit_request_fields self")
    case True
    with "2.prems" show ?thesis by simp
  next
    case nolimit: False
    show ?thesis
    proof (cases "parse_field (strip_header_spaces (cfg self)) (limit_request_field_size self)
                    curr' lines")
      case (Inl e)
      with nolimit "2.prems" show ?thesis by simp
    next
      case (Inr p)
      obtain h lines' where p: "p = (h, lines')" by (cases p)
      show ?thesis
      proof (cases "is_scheme_header sh h \<and> derived_scheme sh h \<noteq> scheme self")
        case True
        with nolimit Inr p "2.prems" show ?thesis by (simp add: scheme_step_eq)
      next
        case False
        with "2.prems"(2) have st: "scheme_step sh h flag self = (Inr True, self)"
          by (auto simp: scheme_step_eq)
        with nolimit Inr p "2.prems"
        have rec: "parse_headers_loop sh lines' (hs @ [h]) True self = (r, self')" by simp
        from "2.IH"[OF nolimit Inr[unfolded p] refl st[symmetric] refl rec] show ?thesis by simp
      qed
    qed
  qed
qed

lemma loop_success:
  "parse_headers_loop sh lines hs flag self = (Inr hs', self') \<Longrightarrow>
     \<exists>new. hs' = hs @ new \<and> scheme_after sh flag self new self'"
proof (induction sh lines hs flag self rule: parse_headers_loop.induct)
  case (1 sh hs flag self)
  then show ?case by (auto simp: scheme_after_def)
next
  case (2 sh curr' lines hs flag self)
  show ?case
  proof (cases "int (length hs) \<ge> limit_request_fields self")
    case True
    with "2.prems" show ?thesis by simp
  next
    case nolimit: False
    show ?thesis
    proof (cases "parse_field (strip_header_spaces (cfg self)) (limit_request_field_size self)
                    curr' lines")
      case (Inl e)
      with nolimit "2.prems" show ?thesis by simp
    next
      case (Inr p)
      obtain h lines' where p: "p = (h, lines')" by (cases p)
      obtain r1 s1 where st: "scheme_step sh h flag self = (r1, s1)"
        by (cases "scheme_step sh h flag self")
      show ?thesis
      proof (cases r1)
        case e: (Inl e1)
        with nolimit Inr p st "2.prems" show ?thesis by simp
      next
        case f: (Inr flag1)
        with nolimit Inr p st "2.prems"
        have rec: "parse_headers_loop sh lines' (hs @ [h]) flag1 s1 = (Inr hs', self')" by simp
        from "2.IH"[OF nolimit Inr[unfolded p] refl st[symmetric] f rec]
        obtain new where new: "hs' = (hs @ [h]) @ new" "scheme_after sh flag1 s1 new self'"
          by blast
        have "scheme_after sh flag self (h # new) self'"
        proof (cases "is_scheme_header sh h")
          case False
          with st f have "flag1 = flag" "s1 = self" by (auto simp: scheme_step_eq)
          with new(2) False show ?thesis by (simp add: scheme_after_def)
        next
          case m: True
          show ?thesis
          proof (cases flag)
            case True
            with st f m have eq: "flag1 = True" "s1 = self" "derived_scheme sh h = scheme self"
              by (auto simp: scheme_step_eq split: if_splits)
            from loop_set_once[OF rec] eq have "self' = self" by simp
            with new(2) eq m True show ?thesis
              by (auto simp: scheme_after_def split: list.splits)
          next
            case False
            with st f m have eq: "flag1 = True" "s1 = self\<lparr>scheme := derived_scheme sh h\<rparr>"
              by (auto simp: scheme_step_eq)
            from loop_set_once[OF rec] eq have "self' = self\<lparr>scheme := derived_scheme sh h\<rparr>"
              by simp
            with new(2) eq m False show ?thesis
              by (auto simp: scheme_after_def split: list.splits)
          qed
        qed
        with new(1) show ?thesis by auto
      qed
    qed
  qed
qed


lemma continuation_lines_append:
  assumes "l2 = [] \<or> \<not> starts_with_blank (hd l2)"
  shows "continuation_lines lim (ls @ l2) n v =
     (case continuation_lines lim ls n v of
        Inl e \<Rightarrow> Inl e
      | Inr (ls', n', v') \<Rightarrow> Inr (ls' @ l2, n', v'))"
proof (induction ls arbitrary: n v)
  case Nil
  from assms show ?case by (cases l2) auto
next
  case (Cons l ls)
  then show ?case by simp
qed

lemma parse_field_append:
  assumes "l2 = [] \<or> \<not> starts_with_blank (hd l2)"
  shows "parse_field sp lim c (ls @ l2) =
     (case parse_field sp lim c ls of
        Inl e \<Rightarrow> Inl e
      | Inr (h, ls') \<Rightarrow> Inr (h, ls' @ l2))"
  by (auto simp: parse_field_def Let_def continuation_lines_append[OF assms]
           split: option.splits sum.splits)

lemma scheme_step_flag:
  "scheme_step sh h flag self = (Inr flag1, s1) \<Longrightarrow> flag1 = (flag \<or> is_scheme_header sh h)"
  by (auto simp: scheme_step_eq split: if_splits)

lemma loop_append:
  assumes l2: "l2 = [] \<or> \<not> starts_with_blank (hd l2)"
  shows "parse_headers_loop sh (l1 @ l2) hs flag self =
     (case parse_headers_loop sh l1 hs flag self of
        (Inl e, s) \<Rightarrow> (Inl e, s)
      | (Inr hs1, s1) \<Rightarrow>
          parse_headers_loop sh l2 hs1
            (flag \<or> list_ex (is_scheme_header sh) (drop (length hs) hs1)) s1)"
proof (induction sh l1 hs flag self rule: parse_headers_loop.induct)
  case (1 sh hs flag self)
  show ?case by simp
next
  case (2 sh curr' lines hs flag self)
  show ?case
  proof (cases "int (length hs) \<ge> limit_request_fields self")
    case True
    then show ?thesis by simp
  next
    case nolimit: False
    show ?thesis
    proof (cases "parse_field (strip_header_spaces (cfg self)) (limit_request_field_size self)
                    curr' lines")
      case (Inl e)
      with nolimit show ?thesis by (simp add: parse_field_append[OF l2])
    next
      case (Inr p)
      obtain h lines' where p: "p = (h, lines')" by (cases p)
      obtain r1 s1 where st: "scheme_step sh h flag self = (r1, s1)"
        by (cases "scheme_step sh h flag self")
      show ?thesis
      proof (cases r1)
        case e: (Inl e1)
        with nolimit Inr p st show ?thesis by (simp add: parse_field_append[OF l2])
      next
        case f: (Inr flag1)
        from st f have flag1: "flag1 = (flag \<or> is_scheme_header sh h)"
          by (auto dest: scheme_step_flag)
        have left: "parse_headers_loop sh ((curr' # lines) @ l2) hs flag self
                    = parse_headers_loop sh (lines' @ l2) (hs @ [h]) flag1 s1"
          using nolimit Inr p st f by (simp add: parse_field_append[OF l2])
        have right: "parse_headers_loop sh (curr' # lines) hs flag self
                    = parse_headers_loop sh lines' (hs @ [h]) flag1 s1"
          using nolimit Inr p st f by simp
        note ih = "2.IH"[OF nolimit Inr[unfolded p] refl st[symmetric] f]
        obtain r2 s2 where rec: "parse_headers_loop sh lines' (hs @ [h]) flag1 s1 = (r2, s2)"
          by (cases "parse_headers_loop sh lines' (hs @ [h]) flag1 s1")
        show ?thesis
        proof (cases r2)
          case (Inl e2)
          with left right ih rec show ?thesis by simp
        next
          case (Inr hs1)
          with rec loop_success obtain new where "hs1 = (hs @ [h]) @ new" by blast
          then have "(flag1 \<or> list_ex (is_scheme_header sh) (drop (length (hs @ [h])) hs1))
                   = (flag \<or> list_ex (is_scheme_header sh) (drop (length hs) hs1))"
            using flag1 by auto
          with left right ih rec Inr show ?thesis by simp
        qed
      qed
    qed
  qed
qed

text \<open>
  C8, as amended. In one \<^verbatim>\<open>parse_headers\<close> pass, with the secure scheme headers that
  count for the peer:
  \<^item> when the pass ends without an error, the scheme is the one given by the first header
    whose normalized name is a secure scheme header (https when its value is the
    configured one, http otherwise), every later such header gives the same scheme, and
    nothing else of the message has changed; with no such header the message is
    unchanged;
  \<^item> when a first such header has been read and the pass reaches a later header line
    (not a continuation line) below the field-count limit that parses, within the
    field-size limit, to a secure scheme header: if the scheme it gives differs from the
    first, the pass raises InvalidSchemeHeaders; if not, the pass goes on with the
    message unchanged;
  \<^item> once the flag \<open>scheme_header\<close> is set, the loop never changes the message again,
    however it ends. So the scheme is written at most once.
\<close>

theorem scheme_from_first_trusted_header:
  "(parse_headers self data = (Inr hs, self') \<longrightarrow>
      (case filter (is_scheme_header (trusted_scheme_headers self)) hs of
         [] \<Rightarrow> self' = self
       | h0 # rest \<Rightarrow>
           self' = self\<lparr>scheme := derived_scheme (trusted_scheme_headers self) h0\<rparr>
           \<and> list_all (\<lambda>h. derived_scheme (trusted_scheme_headers self) h
                             = derived_scheme (trusted_scheme_headers self) h0) rest))
   \<and> (map (\<lambda>line. line @ CRLF) (split_crlf data) = l1 @ c # l2
        \<and> \<not> starts_with_blank c
        \<and> parse_headers_loop (trusted_scheme_headers self) l1 [] False self = (Inr hs1, s1)
        \<and> filter (is_scheme_header (trusted_scheme_headers self)) hs1 = h0 # rest
        \<and> int (length hs1) < limit_request_fields self
        \<and> parse_field (strip_header_spaces (cfg self)) (limit_request_field_size self) c l2
            = Inr (h, l3)
        \<and> is_scheme_header (trusted_scheme_headers self) h
      \<longrightarrow> s1 = self\<lparr>scheme := derived_scheme (trusted_scheme_headers self) h0\<rparr>
          \<and> parse_headers self data =
              (if derived_scheme (trusted_scheme_headers self) h
                    \<noteq> derived_scheme (trusted_scheme_headers self) h0
               then (Inl InvalidSchemeHeaders, s1)
               else parse_headers_loop (trusted_scheme_headers self) l3 (hs1 @ [h]) True s1))
   \<and> (parse_headers_loop sh lines hs0 True self = (r, self'') \<longrightarrow> self'' = self)"
proof (intro conjI impI)
  assume "parse_headers self data = (Inr hs, self')"
  then obtain new where "hs = [] @ new"
    "scheme_after (trusted_scheme_headers self) False self new self'"
    unfolding parse_headers_def by (blast dest: loop_success)
  then show "case filter (is_scheme_header (trusted_scheme_headers self)) hs of
         [] \<Rightarrow> self' = self
       | h0 # rest \<Rightarrow>
           self' = self\<lparr>scheme := derived_scheme (trusted_scheme_headers self) h0\<rparr>
           \<and> list_all (\<lambda>h. derived_scheme (trusted_scheme_headers self) h
                             = derived_scheme (trusted_scheme_headers self) h0) rest"
    by (auto simp: scheme_after_def split: list.splits)
next
  let ?sh = "trusted_scheme_headers self"
  assume a: "map (\<lambda>line. line @ CRLF) (split_crlf data) = l1 @ c # l2
        \<and> \<not> starts_with_blank c
        \<and> parse_headers_loop ?sh l1 [] False self = (Inr hs1, s1)
        \<and> filter (is_scheme_header ?sh) hs1 = h0 # rest
        \<and> int (length hs1) < limit_request_fields self
        \<and> parse_field (strip_header_spaces (cfg self)) (limit_request_field_size self) c l2
            = Inr (h, l3)
        \<and> is_scheme_header ?sh h"
  then obtain new where "hs1 = [] @ new" "scheme_after ?sh False self new s1"
    by (blast dest: loop_success)
  with a have s1: "s1 = self\<lparr>scheme := derived_scheme ?sh h0\<rparr>"
    by (simp add: scheme_after_def)
  from a have ex: "list_ex (is_scheme_header ?sh) hs1"
    by (metis filter_empty_conv list_ex_iff list.distinct(1))
  have "parse_headers self data = parse_headers_loop ?sh (c # l2) hs1 True s1"
    using a ex unfolding parse_headers_def
    by (simp add: loop_append[of "c # l2"])
  also have "\<dots> = (if derived_scheme ?sh h \<noteq> scheme s1 then (Inl InvalidSchemeHeaders, s1)
                     else parse_headers_loop ?sh l3 (hs1 @ [h]) True s1)"
    using a s1 by (subst loop_step[where h = h and lines' = l3]) auto
  finally have "parse_headers self data =
              (if derived_scheme ?sh h \<noteq> derived_scheme ?sh h0
               then (Inl InvalidSchemeHeaders, s1)
               else parse_headers_loop ?sh l3 (hs1 @ [h]) True s1)"
    using s1 by simp
  with s1 show "s1 = self\<lparr>scheme := derived_scheme ?sh h0\<rparr>" 
    and "parse_headers self data =
              (if derived_scheme ?sh h \<noteq> derived_scheme ?sh h0
               then (Inl InvalidSchemeHeaders, s1)
               else parse_headers_loop ?sh l3 (hs1 @ [h]) True s1)"
    by simp_all
next
  assume "parse_headers_loop sh lines hs0 True self = (r, self'')"
  then show "self'' = self" by (rule loop_set_once) simp
qed

lemma block_lines:
  "map (\<lambda>line. line @ CRLF) (split_crlf agreeing_block)
     = [line_host, line_proto_https, line_ssl_on]"
  "map (\<lambda>line. line @ CRLF) (split_crlf conflicting_block) = [line_proto_https, line_ssl_off]"
  "map (\<lambda>line. line @ CRLF) (split_crlf oversized_block) = [line_ssl_on, line_protocol_http]"
  by code_simp+

lemma field_examples:
  "parse_field False 8190 line_host [line_proto_https, line_ssl_on]
     = Inr ((''HOST'', ''example.com''), [line_proto_https, line_ssl_on])"
  "parse_field False 8190 line_proto_https [line_ssl_on]
     = Inr ((''X-FORWARDED-PROTO'', ''https''), [line_ssl_on])"
  "parse_field False 8190 line_ssl_on [] = Inr ((''X-FORWARDED-SSL'', ''on''), [])"
  "parse_field False 8190 line_proto_https [line_ssl_off]
     = Inr ((''X-FORWARDED-PROTO'', ''https''), [line_ssl_off])"
  "parse_field False 8190 line_ssl_off [] = Inr ((''X-FORWARDED-SSL'', ''off''), [])"
  "parse_field False 8190 line_proto_https [] = Inr ((''X-FORWARDED-PROTO'', ''https''), [])"
  "parse_field False 26 line_ssl_on [line_protocol_http]
     = Inr ((''X-FORWARDED-SSL'', ''on''), [line_protocol_http])"
  "parse_field False 26 line_protocol_http []
     = Inl (LimitRequestHeaders ''limit request headers fields size'')"
  "parse_field False 0 line_protocol_http [] = Inr ((''X-FORWARDED-PROTOCOL'', ''http''), [])"
  "\<not> starts_with_blank line_ssl_off"
  by code_simp+

lemma example_trusted:
  "trusted_scheme_headers (example_message t v hs) = secure_scheme_headers (example_cfg t)"
  "trusted_scheme_headers (example_limits n k) = secure_scheme_headers (example_cfg False)"
  by (simp_all add: trusted_scheme_headers_def example_message_def example_cfg_def
        example_limits_def Message_init_limits_def Let_def)

lemma example_scheme_headers:
  "is_scheme_header (secure_scheme_headers (example_cfg t)) (''HOST'', v) = False"
  "is_scheme_header (secure_scheme_headers (example_cfg t)) (''X-FORWARDED-PROTO'', v) = True"
  "is_scheme_header (secure_scheme_headers (example_cfg t)) (''X-FORWARDED-SSL'', v) = True"
  "is_scheme_header (secure_scheme_headers (example_cfg t)) (''X-FORWARDED-PROTOCOL'', v) = True"
  "derived_scheme (secure_scheme_headers (example_cfg t)) (''X-FORWARDED-PROTO'', ''https'') = ''https''"
  "derived_scheme (secure_scheme_headers (example_cfg t)) (''X-FORWARDED-SSL'', ''on'') = ''https''"
  "derived_scheme (secure_scheme_headers (example_cfg t)) (''X-FORWARDED-SSL'', ''off'') = ''http''"
  "derived_scheme (secure_scheme_headers (example_cfg t)) (''X-FORWARDED-PROTOCOL'', ''http'') = ''http''"
  by (simp_all add: is_scheme_header_def derived_scheme_def example_cfg_def)

lemma example_fields:
  "strip_header_spaces (cfg (example_message t v hs)) = False"
  "limit_request_field_size (example_message t v hs) = 8190"
  "limit_request_fields (example_message t v hs) = 100"
  "strip_header_spaces (cfg (example_limits 100 26)) = False"
  "limit_request_field_size (example_limits 100 26) = 26"
  "limit_request_fields (example_limits 100 26) = 100"
  by (simp_all add: example_message_def example_cfg_def example_limits_def
        Message_init_limits_def Let_def MAX_HEADERS_def DEFAULT_MAX_HEADERFIELD_SIZE_def)

text \<open>The theorem at a block whose two scheme headers agree, and at a block whose
  second scheme header disagrees with the first.\<close>

theorem scheme_from_first_trusted_header_witness:
  "scheme (snd (parse_headers (example_message False (1, 1) []) agreeing_block)) = ''https''
   \<and> list_all (\<lambda>h. derived_scheme (secure_scheme_headers (example_cfg False)) h = ''https'')
         [(''X-FORWARDED-SSL'', ''on'')]
   \<and> parse_headers (example_message False (1, 1) []) conflicting_block
     = (Inl InvalidSchemeHeaders, (example_message False (1, 1) [])\<lparr>scheme := ''https''\<rparr>)"
proof -
  let ?m = "example_message False (1, 1) []"
  let ?sh = "trusted_scheme_headers ?m"
  have ok: "parse_headers ?m agreeing_block
     = (Inr [(''HOST'', ''example.com''), (''X-FORWARDED-PROTO'', ''https''),
             (''X-FORWARDED-SSL'', ''on'')], ?m\<lparr>scheme := ''https''\<rparr>)"
    by (simp add: parse_headers_def block_lines field_examples example_trusted example_fields
          scheme_step_eq example_scheme_headers)
  have a: "scheme (snd (parse_headers ?m agreeing_block)) = ''https''
           \<and> list_all (\<lambda>h. derived_scheme (secure_scheme_headers (example_cfg False)) h = ''https'')
                 [(''X-FORWARDED-SSL'', ''on'')]"
    using scheme_from_first_trusted_header[where self = ?m and data = agreeing_block
            and hs = "[(''HOST'', ''example.com''), (''X-FORWARDED-PROTO'', ''https''),
                       (''X-FORWARDED-SSL'', ''on'')]"
            and self' = "?m\<lparr>scheme := ''https''\<rparr>", THEN conjunct1] ok
    by (simp add: example_trusted example_scheme_headers)
  have first: "parse_headers_loop ?sh [line_proto_https] [] False ?m
                 = (Inr [(''X-FORWARDED-PROTO'', ''https'')], ?m\<lparr>scheme := ''https''\<rparr>)"
    by (simp add: field_examples example_trusted example_fields scheme_step_eq
          example_scheme_headers)
  have hyps: "map (\<lambda>line. line @ CRLF) (split_crlf conflicting_block)
                = [line_proto_https] @ line_ssl_off # []
        \<and> \<not> starts_with_blank line_ssl_off
        \<and> parse_headers_loop ?sh [line_proto_https] [] False ?m
            = (Inr [(''X-FORWARDED-PROTO'', ''https'')], ?m\<lparr>scheme := ''https''\<rparr>)
        \<and> filter (is_scheme_header ?sh) [(''X-FORWARDED-PROTO'', ''https'')]
            = (''X-FORWARDED-PROTO'', ''https'') # []
        \<and> int (length [(''X-FORWARDED-PROTO'', ''https'')]) < limit_request_fields ?m
        \<and> parse_field (strip_header_spaces (cfg ?m)) (limit_request_field_size ?m)
              line_ssl_off [] = Inr ((''X-FORWARDED-SSL'', ''off''), [])
        \<and> is_scheme_header ?sh (''X-FORWARDED-SSL'', ''off'')"
    using first
    by (simp add: block_lines field_examples example_trusted example_fields
          example_scheme_headers)
  have b: "parse_headers ?m conflicting_block
             = (Inl InvalidSchemeHeaders, ?m\<lparr>scheme := ''https''\<rparr>)"
    using scheme_from_first_trusted_header[where self = ?m and data = conflicting_block
            and ?l1.0 = "[line_proto_https]" and c = line_ssl_off and ?l2.0 = "[]"
            and ?hs1.0 = "[(''X-FORWARDED-PROTO'', ''https'')]"
            and ?s1.0 = "?m\<lparr>scheme := ''https''\<rparr>"
            and ?h0.0 = "(''X-FORWARDED-PROTO'', ''https'')" and rest = "[]"
            and h = "(''X-FORWARDED-SSL'', ''off'')" and ?l3.0 = "[]",
            THEN conjunct2, THEN conjunct1, rule_format, OF hyps]
    by (simp add: example_trusted example_scheme_headers)
  from a b show ?thesis by simp
qed

text \<open>
  As first stated, the claim has every later scheme header that disagrees with the first
  raise the conflicting-scheme error. The size check of a field comes before the scheme
  logic: with a field-size limit of 26, the header \<^verbatim>\<open>X-Forwarded-Protocol: http\<close> (28
  bytes with its line end) after \<^verbatim>\<open>X-Forwarded-SSL: on\<close> raises LimitRequestHeaders
  instead, although it is a scheme header and gives http where the first gave https.
\<close>

theorem scheme_from_first_trusted_header_counterexample:
  "parse_headers (example_limits 100 26) oversized_block
     = (Inl (LimitRequestHeaders ''limit request headers fields size''),
        (example_limits 100 26)\<lparr>scheme := ''https''\<rparr>)
   \<and> parse_field False 0 line_protocol_http [] = Inr ((''X-FORWARDED-PROTOCOL'', ''http''), [])
   \<and> is_scheme_header (trusted_scheme_headers (example_limits 100 26))
         (''X-FORWARDED-PROTOCOL'', ''http'')
   \<and> derived_scheme (trusted_scheme_headers (example_limits 100 26))
         (''X-FORWARDED-PROTOCOL'', ''http'') = ''http''"
proof -
  have "parse_headers (example_limits 100 26) oversized_block
     = (Inl (LimitRequestHeaders ''limit request headers fields size''),
        (example_limits 100 26)\<lparr>scheme := ''https''\<rparr>)"
    by (simp add: parse_headers_def block_lines field_examples example_trusted example_fields
          scheme_step_eq example_scheme_headers)
  then show ?thesis
    by (simp add: field_examples example_trusted example_scheme_headers)
qed

end
